theory Spec2Isabelle
  imports Main "HOL-Library.AList"
begin

section \<open>JavaScript strings\<close>

text \<open>
  A string of the program is modelled as a \<^typ>\<open>string\<close>: a list of 8-bit characters,
  read as the code units 0..255 of a JavaScript string (ASCII and Latin-1 text). Indices
  are JavaScript numbers; the ones the program computes are integers, so they are
  \<^typ>\<open>int\<close>, and \<open>-1\<close> is the "not found" result of \<open>indexOf\<close>.
\<close>

text \<open>\<open>text.indexOf(pat)\<close>: the index of the first occurrence of \<open>pat\<close>, or \<open>-1\<close>.\<close>

fun indexOf :: "string \<Rightarrow> string \<Rightarrow> int" where
  "indexOf [] pat = (if pat = [] then 0 else -1)"
| "indexOf (c # cs) pat =
     (if take (length pat) (c # cs) = pat then 0
      else (let r = indexOf cs pat in if r = -1 then -1 else r + 1))"

text \<open>
  \<open>text.slice(start, end)\<close>: a negative index counts from the end, both indices are
  clamped to the length, and the result is empty when the start is not before the end.
\<close>

definition slice :: "string \<Rightarrow> int \<Rightarrow> int \<Rightarrow> string" where
  "slice s start end' =
     (let len = int (length s);
          from = (if start < 0 then max (len + start) 0 else min start len);
          to = (if end' < 0 then max (len + end') 0 else min end' len)
      in take (nat (to - from)) (drop (nat from) s))"

text \<open>\<open>xs.join(sep)\<close> on an array of strings.\<close>

fun join :: "string \<Rightarrow> string list \<Rightarrow> string" where
  "join sep [] = []"
| "join sep [x] = x"
| "join sep (x # y # ys) = x @ sep @ join sep (y # ys)"

section \<open>Deriving the branch name\<close>

text \<open>
  \<open>pr.title.toLowerCase().replace(/[^a-z0-9]+/g, '-')\<close>. On code units below 256
  \<open>toLowerCase\<close> maps \<open>A\<close>..\<open>Z\<close> and the Latin-1 capitals (192..222 except the
  multiplication sign 215) to the code unit 32 above and leaves the rest. The character
  class \<open>[a-z0-9]\<close> is \<open>alnum\<close>; \<open>replaceRuns\<close> is the global replacement of every
  maximal run of characters outside the class by one hyphen.
\<close>

definition lower_char :: "char \<Rightarrow> char" where
  "lower_char c =
     (let n = (of_char c :: nat)
      in if (65 \<le> n \<and> n \<le> 90) \<or> (192 \<le> n \<and> n \<le> 222 \<and> n \<noteq> 215)
         then char_of (n + 32) else c)"

definition toLowerCase :: "string \<Rightarrow> string" where
  "toLowerCase s = map lower_char s"

definition alnum :: "char \<Rightarrow> bool" where
  "alnum c = (c \<in> set ''abcdefghijklmnopqrstuvwxyz0123456789'')"

function replaceRuns :: "string \<Rightarrow> string" where
  "replaceRuns [] = []"
| "replaceRuns (c # cs) =
     (if alnum c then c # replaceRuns cs
      else CHR ''-'' # replaceRuns (dropWhile (\<lambda>d. \<not> alnum d) cs))"
  by pat_completeness auto
termination
  by (relation "measure length") (auto simp: le_imp_less_Suc length_dropWhile_le)

definition slugify :: "string \<Rightarrow> string" where
  "slugify title = replaceRuns (toLowerCase title)"

text \<open>
  \<open>Date.now()\<close> is the number of milliseconds since the epoch, a natural number; in a
  template literal it is written in decimal.
\<close>

function numberToString :: "nat \<Rightarrow> string" where
  "numberToString n =
     (if n < 10 then [''0123456789'' ! n]
      else numberToString (n div 10) @ [''0123456789'' ! (n mod 10)])"
  by pat_completeness auto
termination
  by (relation "measure id") auto

declare numberToString.simps [simp del]

text \<open>The template literal \<open>feature/${...}-${Date.now()}\<close>.\<close>

definition newBranch :: "string \<Rightarrow> nat \<Rightarrow> string" where
  "newBranch title now = ''feature/'' @ slugify title @ ''-'' @ numberToString now"

section \<open>Errors\<close>

text \<open>
  Every \<open>throw\<close> and every rejected promise is a value: \<open>Error msg\<close> is the program's own
  \<open>new Error(msg)\<close>, \<open>TypeError\<close> is the runtime's error for reading a property of
  \<open>undefined\<close> or \<open>null\<close> and for calling what is not a function, \<open>XmlError\<close> is the
  XML parser's rejection, \<open>ModelError\<close> a failed completion call and \<open>RequestError\<close> a
  failed call to the version-control host.
\<close>

datatype error = Error string | TypeError | XmlError | ModelError | RequestError

section \<open>Locating the payload: \<open>extractXMLFromResponse\<close>\<close>

definition extractXMLFromResponse :: "string \<Rightarrow> error + string" where
  "extractXMLFromResponse text =
     (let xmlStart = indexOf text ''<response>'';
          xmlEnd = indexOf text ''</response>'' + int (length ''</response>'')
      in if xmlStart = -1 \<or> xmlEnd = -1
         then Inl (Error ''Could not find valid XML in model response'')
         else Inr (slice text xmlStart xmlEnd))"

section \<open>Runtime values and the XML document\<close>

text \<open>
  What \<open>parseStringPromise\<close> resolves to is an untyped JavaScript value: \<open>null\<close>, a
  string, an array, or an object, kept as the list of its own keys in insertion order.
\<close>

datatype jsval = JNull | JUndefined | JStr string | JArr "jsval list" | JObj "(string \<times> jsval) list"

text \<open>
  An XML element has a name, attributes and, in document order, its children: character
  data, character data of a CDATA section, and elements. This is what the XML reader
  reports (entities resolved, comments and processing instructions left out).
\<close>

datatype xml = Element string "(string \<times> string) list" "node list"
and node = Text string | CData string | Child xml

fun tag :: "xml \<Rightarrow> string" where
  "tag (Element name attrs kids) = name"

text \<open>
  White space as \<open>String.prototype.trim\<close> and the regular expression class \<open>\s\<close> see it,
  on code units below 256.
\<close>

definition space :: "char \<Rightarrow> bool" where
  "space c = (c \<in> set [CHR 0x09, CHR 0x0A, CHR 0x0B, CHR 0x0C, CHR 0x0D, CHR '' '', CHR 0xA0])"

text \<open>
  The library \<open>xml2js\<close> is a dependency of the repository, not part of its source. Its
  object builder is modelled here for the default options the program calls it with
  (\<open>explicitArray\<close>, \<open>explicitRoot\<close>, attributes under \<open>$\<close>, text under \<open>_\<close>, no
  trimming), on the documents where its result does not depend on the library's version:
  \<^item> every child element is stored under its name in an array, in document order
    (\<open>assignOrPush\<close>);
  \<^item> an element with no attribute and no child element is the string of its character
    data (so an empty element is the empty string);
  \<^item> next to attributes or child elements, character data is kept under \<open>_\<close> unless
    it is white space only and none of it came from a CDATA section.

  While it builds the object of an element the library keeps its own keys in that
  object (\<open>_\<close>, \<open>$\<close>, \<open>#name\<close>, \<open>cdata\<close>), and its test \<open>key in obj\<close> also finds what
  the object inherits (the members of \<open>Object.prototype\<close>, in the versions that build
  plain objects). For an element of one of these names (\<open>reserved\<close>), for an attribute
  named \<open>__proto__\<close> and for a repeated attribute the result is not modelled: the
  builder is \<open>None\<close> there.
\<close>

definition reserved :: "string list" where
  "reserved = [''_'', ''$'', ''#name'', ''cdata'', ''__proto__'', ''constructor'',
     ''hasOwnProperty'', ''isPrototypeOf'', ''propertyIsEnumerable'', ''toLocaleString'',
     ''toString'', ''valueOf'', ''__defineGetter__'', ''__defineSetter__'',
     ''__lookupGetter__'', ''__lookupSetter__'']"

fun charData :: "node list \<Rightarrow> string" where
  "charData [] = []"
| "charData (Text t # kids) = t @ charData kids"
| "charData (CData t # kids) = t @ charData kids"
| "charData (Child e # kids) = charData kids"

fun hasCData :: "node list \<Rightarrow> bool" where
  "hasCData [] = False"
| "hasCData (CData t # kids) = True"
| "hasCData (k # kids) = hasCData kids"

definition assignOrPush :: "(string \<times> jsval) list \<Rightarrow> string \<Rightarrow> jsval \<Rightarrow> (string \<times> jsval) list option" where
  "assignOrPush obj key newValue =
     (if key \<in> set reserved then None
      else case map_of obj key of
             None \<Rightarrow> Some (obj @ [(key, JArr [newValue])])
           | Some (JArr vs) \<Rightarrow> Some (AList.update key (JArr (vs @ [newValue])) obj)
           | Some old \<Rightarrow> Some (AList.update key (JArr [old, newValue]) obj))"

definition attrObject :: "(string \<times> string) list \<Rightarrow> (string \<times> jsval) list option" where
  "attrObject attrs =
     (if \<not> distinct (map fst attrs) \<or> ''__proto__'' \<in> set (map fst attrs) then None
      else if attrs = [] then Some []
      else Some [(''$'', JObj (map (\<lambda>(k, v). (k, JStr v)) attrs))])"

fun xml2js :: "xml \<Rightarrow> jsval option"
and children :: "node list \<Rightarrow> (string \<times> jsval) list \<Rightarrow> (string \<times> jsval) list option" where
  "xml2js (Element name attrs kids) =
     (if name \<in> set reserved then None
      else case attrObject attrs of
             None \<Rightarrow> None
           | Some init \<Rightarrow>
              (case children kids init of
                 None \<Rightarrow> None
               | Some obj \<Rightarrow>
                  (let text = charData kids
                   in if obj = [] then Some (JStr text)
                      else if list_all space text \<and> \<not> hasCData kids then Some (JObj obj)
                      else Some (JObj ((''_'', JStr text) # obj)))))"
| "children [] obj = Some obj"
| "children (Text t # kids) obj = children kids obj"
| "children (CData t # kids) obj = children kids obj"
| "children (Child e # kids) obj =
     (case xml2js e of
        None \<Rightarrow> None
      | Some v \<Rightarrow>
         (case assignOrPush obj (tag e) v of
            None \<Rightarrow> None
          | Some obj' \<Rightarrow> children kids obj'))"

text \<open>
  \<open>parseStringPromise(str)\<close>: \<open>xml2js\<close> resolves to \<open>null\<close> for a blank string without
  reading it; otherwise the strict XML reader (the parameter \<open>rd\<close>: the element tree of
  a well-formed document, \<open>None\<close> when the reader rejects the text) reads it and the
  result is an object with the root's name as its only key. For a document the builder
  above does not model, the result is what the parameter \<open>outside\<close> says.
\<close>

definition parseStringPromise ::
  "(string \<Rightarrow> xml option) \<Rightarrow> (xml \<Rightarrow> error + jsval) \<Rightarrow> string \<Rightarrow> error + jsval" where
  "parseStringPromise rd outside str =
     (if list_all space str then Inr JNull
      else case rd str of
             None \<Rightarrow> Inl XmlError
           | Some root \<Rightarrow>
              (case xml2js root of
                 None \<Rightarrow> outside root
               | Some v \<Rightarrow> Inr (JObj [(tag root, v)])))"

section \<open>Calls to the outside\<close>

text \<open>
  Each request the program sends, with the arguments it sends (owner and repository are
  the same constants in every call and are left out): the two reads of the fetch phase,
  the completion call with the system and the user message, and the calls of the
  publishing phase. The content of a file write is the text whose base64 encoding is
  sent.
\<close>

datatype call =
    GetContent string
  | GetBlob string
  | GenerateText string string
  | ReposGet
  | GetRef string
  | CreateRef string string
  | CreateOrUpdateFileContents jsval string string string
  | PullsCreate string jsval string string
  | CreateComment nat string

fun isWrite :: "call \<Rightarrow> bool" where
  "isWrite (CreateRef ref commit) = True"
| "isWrite (CreateOrUpdateFileContents p message text branch) = True"
| "isWrite (PullsCreate t b head base) = True"
| "isWrite (CreateComment number b) = True"
| "isWrite c = False"

section \<open>Fetching the repository: \<open>getRepoFiles\<close>\<close>

record RepoFile =
  path :: string
  content :: string
  sha :: string

text \<open>
  What the host answers during the walk. A listing request throws, or returns an array of
  entries, or a single entry; an entry is a file (path, hash, and the decoded text of its
  blob, \<open>None\<close> when the blob request throws), a directory (path, and the answer to the
  listing of that path), or of another type (a link or a submodule).
\<close>

datatype item = File string string "string option" | Dir string listing | Other string
and listing = Throws | Contents "item list" | Content item

record fetched =
  repoFiles :: "RepoFile list"
  errors :: "string list"
  requests :: "call list"

text \<open>
  \<open>getRepoFiles p l\<close> is the call \<open>getRepoFiles(p)\<close> when the host answers \<open>l\<close>;
  \<open>forItems\<close> is the \<open>for\<close> loop inside the \<open>try\<close> block, its flag telling whether the
  loop ran to its end. A throw leaves the loop, the \<open>catch\<close> block logs the path
  (\<open>errors\<close>), and the function returns the array \<open>files\<close> as filled so far. What
  \<open>console.log\<close> prints is left out.
\<close>

fun getRepoFiles :: "string \<Rightarrow> listing \<Rightarrow> fetched"
and forItems :: "item list \<Rightarrow> fetched \<times> bool" where
  "getRepoFiles p Throws = \<lparr>repoFiles = [], errors = [p], requests = [GetContent p]\<rparr>"
| "getRepoFiles p (Contents items) =
     (let (r, completed) = forItems items
      in \<lparr>repoFiles = repoFiles r,
          errors = errors r @ (if completed then [] else [p]),
          requests = GetContent p # requests r\<rparr>)"
| "getRepoFiles p (Content i) =
     (let (r, completed) = forItems [i]
      in \<lparr>repoFiles = repoFiles r,
          errors = errors r @ (if completed then [] else [p]),
          requests = GetContent p # requests r\<rparr>)"
| "forItems [] = (\<lparr>repoFiles = [], errors = [], requests = []\<rparr>, True)"
| "forItems (File q s blob # rest) =
     (case blob of
        None \<Rightarrow> (\<lparr>repoFiles = [], errors = [], requests = [GetBlob s]\<rparr>, False)
      | Some decoded \<Rightarrow>
          (let (r, completed) = forItems rest
           in (\<lparr>repoFiles = \<lparr>path = q, content = decoded, sha = s\<rparr> # repoFiles r,
                errors = errors r,
                requests = GetBlob s # requests r\<rparr>, completed)))"
| "forItems (Dir q l # rest) =
     (let sub = getRepoFiles q l; (r, completed) = forItems rest
      in (\<lparr>repoFiles = repoFiles sub @ repoFiles r,
           errors = errors sub @ errors r,
           requests = requests sub @ requests r\<rparr>, completed))"
| "forItems (Other q # rest) = forItems rest"

text \<open>\<open>repoFiles.map(f => `${f.path}:\n${f.content}`).join('\n\n')\<close>.\<close>

definition codebaseContext :: "RepoFile list \<Rightarrow> string" where
  "codebaseContext fs = join ''\<newline>\<newline>'' (map (\<lambda>f. path f @ '':\<newline>'' @ content f) fs)"

text \<open>The fixed text of the system message, up to the interpolated context.\<close>

definition instructions :: string where
  "instructions =
     ''You are a TypeScript expert. Analyze the following codebase and generate changes based on user requirements.\<newline>'' @
     ''Respond ONLY with valid XML in this format:\<newline>'' @
     ''<response>\<newline>'' @
     ''  <pullRequest>\<newline>'' @
     ''    <title>Title of the pull request</title>\<newline>'' @
     ''    <body>Detailed description of the changes</body>\<newline>'' @
     ''  </pullRequest>\<newline>'' @
     ''  <files>\<newline>'' @
     ''    <file>\<newline>'' @
     ''      <path>path/to/file</path>\<newline>'' @
     ''      <content>File content</content>\<newline>'' @
     ''    </file>\<newline>'' @
     ''  </files>\<newline>'' @
     ''</response>\<newline>'' @
     ''\<newline>'' @
     ''Current codebase:\<newline>''"

section \<open>Decoding the document: \<open>parseModelResponse\<close>\<close>

text \<open>\<open>await\<close> and sequencing: the first error ends the computation.\<close>

definition andThen :: "error + 'a \<Rightarrow> ('a \<Rightarrow> error + 'b) \<Rightarrow> error + 'b" where
  "andThen r f = (case r of Inl e \<Rightarrow> Inl e | Inr v \<Rightarrow> f v)"

fun traverse :: "('a \<Rightarrow> error + 'b) \<Rightarrow> 'a list \<Rightarrow> error + 'b list" where
  "traverse f [] = Inr []"
| "traverse f (x # xs) =
     andThen (f x) (\<lambda>y. andThen (traverse f xs) (\<lambda>ys. Inr (y # ys)))"

text \<open>
  \<open>v.key\<close> for the keys the program reads (\<open>response\<close>, \<open>files\<close>, \<open>file\<close>, \<open>path\<close>,
  \<open>content\<close>, \<open>pullRequest\<close>, \<open>title\<close>, \<open>body\<close>; none is a built-in property): a
  \<open>TypeError\<close> on \<open>null\<close> and \<open>undefined\<close>, \<open>undefined\<close> when the key is missing.
\<close>

fun getProp :: "jsval \<Rightarrow> string \<Rightarrow> error + jsval" where
  "getProp JNull key = Inl TypeError"
| "getProp JUndefined key = Inl TypeError"
| "getProp (JStr s) key = Inr JUndefined"
| "getProp (JArr vs) key = Inr JUndefined"
| "getProp (JObj obj) key = Inr (case map_of obj key of None \<Rightarrow> JUndefined | Some v \<Rightarrow> v)"

text \<open>\<open>v[0]\<close>.\<close>

fun first :: "jsval \<Rightarrow> error + jsval" where
  "first JNull = Inl TypeError"
| "first JUndefined = Inl TypeError"
| "first (JStr s) = Inr (case s of [] \<Rightarrow> JUndefined | c # cs \<Rightarrow> JStr [c])"
| "first (JArr vs) = Inr (case vs of [] \<Rightarrow> JUndefined | v # rest \<Rightarrow> v)"
| "first (JObj obj) = Inr (case map_of obj ''0'' of None \<Rightarrow> JUndefined | Some v \<Rightarrow> v)"

text \<open>
  \<open>v.map(f)\<close>: only an array has the method; on every other value reading or calling
  \<open>map\<close> is a \<open>TypeError\<close>.
\<close>

fun mapArray :: "(jsval \<Rightarrow> error + 'a) \<Rightarrow> jsval \<Rightarrow> error + 'a list" where
  "mapArray f (JArr vs) = traverse f vs"
| "mapArray f v = Inl TypeError"

record FileContent =
  path :: jsval
  content :: jsval

record PRMetadata =
  title :: jsval
  body :: jsval

record GeneratedContent =
  files :: "FileContent list"
  pr :: PRMetadata

text \<open>
  The interfaces declare the four fields as strings; nothing checks that at run time, so
  they hold whatever \<open>xml2js\<close> built.
\<close>

definition parseModelResponse ::
  "(string \<Rightarrow> xml option) \<Rightarrow> (xml \<Rightarrow> error + jsval) \<Rightarrow> string \<Rightarrow> error + GeneratedContent" where
  "parseModelResponse rd outside xmlResponse =
     andThen (parseStringPromise rd outside xmlResponse) (\<lambda>parsed.
     andThen (getProp parsed ''response'') (\<lambda>response.
     andThen (getProp response ''files'') (\<lambda>filesArr.
     andThen (first filesArr) (\<lambda>files0.
     andThen (getProp files0 ''file'') (\<lambda>fileArr.
     andThen (mapArray (\<lambda>file.
                andThen (getProp file ''path'') (\<lambda>paths.
                andThen (first paths) (\<lambda>path0.
                andThen (getProp file ''content'') (\<lambda>contents.
                andThen (first contents) (\<lambda>content0.
                Inr \<lparr>path = path0, content = content0\<rparr>))))) fileArr) (\<lambda>fs.
     andThen (getProp response ''pullRequest'') (\<lambda>prs.
     andThen (first prs) (\<lambda>pr0.
     andThen (getProp pr0 ''title'') (\<lambda>titles.
     andThen (first titles) (\<lambda>title0.
     andThen (getProp pr0 ''body'') (\<lambda>bodies.
     andThen (first bodies) (\<lambda>body0.
     Inr \<lparr>files = fs, pr = \<lparr>title = title0, body = body0\<rparr>\<rparr>))))))))))))"

section \<open>The pipeline: \<open>createAutomatedPR\<close>\<close>

text \<open>
  Everything outside the program that one run meets: the host's answers during the walk
  (\<open>tree\<close>), the line typed at the prompt (\<open>stdin\<close>), the completion call (text and
  reasoning, \<open>None\<close> when it throws), the XML reader (\<open>sax\<close>) and what \<open>xml2js\<close> makes of
  a document the builder does not model (\<open>outside\<close>), the clock, and the host during
  publishing: \<open>accepts h c\<close> tells whether the request \<open>c\<close>, sent after the requests
  \<open>h\<close>, completes, and \<open>default_branch\<close>, \<open>head_sha\<close> and \<open>pull\<close> (number and URL)
  are the data of its answers. \<open>toText\<close> and \<open>toBuffer\<close> are the runtime's conversions
  of a value that is not a string, in a template literal and in \<open>Buffer.from\<close>
  (\<open>None\<close> when they throw).
\<close>

record world =
  tree :: listing
  stdin :: string
  completion :: "string \<Rightarrow> string \<Rightarrow> (string \<times> string) option"
  sax :: "string \<Rightarrow> xml option"
  outside :: "xml \<Rightarrow> error + jsval"
  clock :: nat
  accepts :: "call list \<Rightarrow> call \<Rightarrow> bool"
  default_branch :: string
  head_sha :: "string \<Rightarrow> string"
  pull :: "nat \<times> string"
  toText :: "jsval \<Rightarrow> string option"
  toBuffer :: "jsval \<Rightarrow> string option"

text \<open>A run ends with the requests it sent, in order, and the URL it printed or the error it caught.\<close>

record run =
  calls :: "call list"
  outcome :: "error + string"

definition interpolate :: "world \<Rightarrow> jsval \<Rightarrow> error + string" where
  "interpolate w v =
     (case v of
        JStr s \<Rightarrow> Inr s
      | _ \<Rightarrow> (case toText w v of None \<Rightarrow> Inl TypeError | Some s \<Rightarrow> Inr s))"

definition bufferFrom :: "world \<Rightarrow> jsval \<Rightarrow> error + string" where
  "bufferFrom w v =
     (case v of
        JStr s \<Rightarrow> Inr s
      | _ \<Rightarrow> (case toBuffer w v of None \<Rightarrow> Inl TypeError | Some s \<Rightarrow> Inr s))"

text \<open>
  The loop \<open>for (const file of files)\<close>: one \<open>createOrUpdateFileContents\<close> request per
  edit, in the order of the array, stopping at the first error.
\<close>

fun writeFiles :: "world \<Rightarrow> string \<Rightarrow> call list \<Rightarrow> FileContent list \<Rightarrow> error option \<times> call list" where
  "writeFiles w branch h [] = (None, h)"
| "writeFiles w branch h (file # rest) =
     (case interpolate w (path file) of
        Inl e \<Rightarrow> (Some e, h)
      | Inr p \<Rightarrow>
         (case bufferFrom w (content file) of
            Inl e \<Rightarrow> (Some e, h)
          | Inr encoded \<Rightarrow>
             (let c = CreateOrUpdateFileContents (path file) (''Update '' @ p) encoded branch
              in if accepts w h c then writeFiles w branch (h @ [c]) rest
                 else (Some RequestError, h @ [c]))))"

text \<open>The statements of \<open>createAutomatedPR\<close> after the parse.\<close>

definition publish :: "world \<Rightarrow> call list \<Rightarrow> string \<Rightarrow> GeneratedContent \<Rightarrow> run" where
  "publish w h0 reasoning generated =
     (let h1 = h0 @ [ReposGet]
      in if \<not> accepts w h0 ReposGet then \<lparr>calls = h1, outcome = Inl RequestError\<rparr>
      else
        (let defaultBranch = default_branch w
         in case title (pr generated) of
              JStr t \<Rightarrow>
                (let branch = newBranch t (clock w);
                     getRef = GetRef (''heads/'' @ defaultBranch);
                     h2 = h1 @ [getRef]
                 in if \<not> accepts w h1 getRef then \<lparr>calls = h2, outcome = Inl RequestError\<rparr>
                 else
                   (let createRef = CreateRef (''refs/heads/'' @ branch)
                                      (head_sha w (''heads/'' @ defaultBranch));
                        h3 = h2 @ [createRef]
                    in if \<not> accepts w h2 createRef
                       then \<lparr>calls = h3, outcome = Inl RequestError\<rparr>
                       else
                         (case writeFiles w branch h3 (files generated) of
                            (Some e, h4) \<Rightarrow> \<lparr>calls = h4, outcome = Inl e\<rparr>
                          | (None, h4) \<Rightarrow>
                             (let create = PullsCreate t (body (pr generated)) branch defaultBranch;
                                  h5 = h4 @ [create]
                              in if \<not> accepts w h4 create
                                 then \<lparr>calls = h5, outcome = Inl RequestError\<rparr>
                                 else
                                   (case traverse (\<lambda>f. andThen (interpolate w (path f))
                                                         (\<lambda>p. Inr (''- '' @ p)))
                                           (files generated) of
                                      Inl e \<Rightarrow> \<lparr>calls = h5, outcome = Inl e\<rparr>
                                    | Inr bullets \<Rightarrow>
                                       (let comment = CreateComment (fst (pull w))
                                              (''## AI Model's Reasoning Process\<newline>\<newline>'' @ reasoning @
                                               ''\<newline>\<newline>## Modified Files\<newline>'' @
                                               join ''\<newline>'' bullets);
                                            h6 = h5 @ [comment]
                                        in if \<not> accepts w h5 comment
                                           then \<lparr>calls = h6, outcome = Inl RequestError\<rparr>
                                           else \<lparr>calls = h6, outcome = Inr (snd (pull w))\<rparr>))))))
            | _ \<Rightarrow> \<lparr>calls = h1, outcome = Inl TypeError\<rparr>))"

definition createAutomatedPR :: "world \<Rightarrow> run" where
  "createAutomatedPR w =
     (let fetch = getRepoFiles [] (tree w);
          system = instructions @ codebaseContext (repoFiles fetch);
          userRequirements = stdin w;
          h = requests fetch @ [GenerateText system userRequirements]
      in case completion w system userRequirements of
           None \<Rightarrow> \<lparr>calls = h, outcome = Inl ModelError\<rparr>
         | Some (rawResponse, reasoning) \<Rightarrow>
            (case extractXMLFromResponse rawResponse of
               Inl e \<Rightarrow> \<lparr>calls = h, outcome = Inl e\<rparr>
             | Inr xmlResponse \<Rightarrow>
                (case parseModelResponse (sax w) (outside w) xmlResponse of
                   Inl e \<Rightarrow> \<lparr>calls = h, outcome = Inl e\<rparr>
                 | Inr generated \<Rightarrow> publish w h reasoning generated)))"

section \<open>Notions used in the statements\<close>

text \<open>
  A string is \<open>tidy\<close> when it consists of characters of \<open>[a-z0-9]\<close> and single hyphens,
  each hyphen at the end or followed by a character of the class.
\<close>

fun tidy :: "string \<Rightarrow> bool" where
  "tidy [] = True"
| "tidy [c] = (alnum c \<or> c = CHR ''-'')"
| "tidy (c # d # r) = ((alnum c \<or> (c = CHR ''-'' \<and> alnum d)) \<and> tidy (d # r))"

text \<open>
  For the walk: an entry whose blob request throws; what an entry adds to the file list
  and to the error log when the loop reaches it and goes on.
\<close>

fun blobFailed :: "item \<Rightarrow> bool" where
  "blobFailed (File q s None) = True"
| "blobFailed i = False"

fun contribution :: "item \<Rightarrow> RepoFile list" where
  "contribution (File q s (Some decoded)) = [\<lparr>RepoFile.path = q, content = decoded, sha = s\<rparr>]"
| "contribution (File q s None) = []"
| "contribution (Dir q l) = repoFiles (getRepoFiles q l)"
| "contribution (Other q) = []"

fun reported :: "item \<Rightarrow> string list" where
  "reported (Dir q l) = errors (getRepoFiles q l)"
| "reported i = []"

text \<open>
  The file list as the claim C2 words it: a directory in which the listing or a blob
  request failed contributes no file at all; every other directory contributes its files
  and what its subdirectories contribute.
\<close>

fun claimedFiles :: "listing \<Rightarrow> RepoFile list"
and claimedItems :: "item list \<Rightarrow> RepoFile list" where
  "claimedFiles Throws = []"
| "claimedFiles (Contents items) = (if list_ex blobFailed items then [] else claimedItems items)"
| "claimedFiles (Content i) = (if blobFailed i then [] else claimedItems [i])"
| "claimedItems [] = []"
| "claimedItems (File q s (Some decoded) # rest) =
     \<lparr>RepoFile.path = q, content = decoded, sha = s\<rparr> # claimedItems rest"
| "claimedItems (File q s None # rest) = claimedItems rest"
| "claimedItems (Dir q l # rest) = claimedFiles l @ claimedItems rest"
| "claimedItems (Other q # rest) = claimedItems rest"

text \<open>
  The requests by phase: the reads of the walk, the completion call, and the requests of
  the publishing phase.
\<close>

fun isFetch :: "call \<Rightarrow> bool" where
  "isFetch (GetContent p) = True"
| "isFetch (GetBlob s) = True"
| "isFetch c = False"

fun isPublishing :: "call \<Rightarrow> bool" where
  "isPublishing (GetContent p) = False"
| "isPublishing (GetBlob s) = False"
| "isPublishing (GenerateText a b) = False"
| "isPublishing c = True"

fun isCompletion :: "call \<Rightarrow> bool" where
  "isCompletion (GenerateText a b) = True"
| "isCompletion c = False"

text \<open>A world for the examples: a small repository, a host that accepts every request.\<close>

definition world0 :: world where
  "world0 = \<lparr>tree = Contents [File ''index.ts'' ''1f'' (Some ''export {};'')],
             stdin = ''add logging'',
             completion = (\<lambda>system user. Some (''I cannot help with that.'', ''none'')),
             sax = (\<lambda>str. None),
             outside = (\<lambda>root. Inl TypeError),
             clock = 1730000000000,
             accepts = (\<lambda>h c. True),
             default_branch = ''main'',
             head_sha = (\<lambda>ref. ''c0ffee''),
             pull = (7, ''https://example.org/pull/7''),
             toText = (\<lambda>v. None),
             toBuffer = (\<lambda>v. None)\<rparr>"

text \<open>
  For the document: the children of an element, its child elements in document order,
  and those of a given name.
\<close>

fun kids :: "xml \<Rightarrow> node list" where
  "kids (Element name as ks) = ks"

fun attributes :: "xml \<Rightarrow> (string \<times> string) list" where
  "attributes (Element name as ks) = as"

fun elems :: "node list \<Rightarrow> xml list" where
  "elems [] = []"
| "elems (Child e # ks) = e # elems ks"
| "elems (k # ks) = elems ks"

definition named :: "string \<Rightarrow> xml \<Rightarrow> xml list" where
  "named name e = filter (\<lambda>k. tag k = name) (elems (kids e))"

text \<open>A document the builder models.\<close>

definition covered :: "xml \<Rightarrow> bool" where
  "covered e = (xml2js e \<noteq> None)"

text \<open>What \<open>assignOrPush\<close> leaves under a key after pushing the values \<open>vs\<close> in turn.\<close>

fun pushed :: "jsval option \<Rightarrow> jsval list \<Rightarrow> jsval option" where
  "pushed r [] = r"
| "pushed None vs = Some (JArr vs)"
| "pushed (Some (JArr ws)) vs = Some (JArr (ws @ vs))"
| "pushed (Some old) vs = Some (JArr (old # vs))"

text \<open>
  What the program reads of a document, said on the document itself: of a \<open>file\<close>
  element its first \<open>path\<close> and first \<open>content\<close> child; of the root its first
  \<open>pullRequest\<close> child and of that the first \<open>title\<close> and \<open>body\<close>; of the root's first
  \<open>files\<close> child every \<open>file\<close> child, of which there must be one. \<open>None\<close> when one of
  these is missing. Nothing else of the document decides whether the reads succeed; the
  values read are the objects or strings built for those elements.
\<close>

definition editOf :: "xml \<Rightarrow> FileContent option" where
  "editOf f =
     (case named ''path'' f of
        [] \<Rightarrow> None
      | p # ps \<Rightarrow>
         (case named ''content'' f of
            [] \<Rightarrow> None
          | c # cs \<Rightarrow>
             (case xml2js p of
                None \<Rightarrow> None
              | Some pv \<Rightarrow>
                 (case xml2js c of
                    None \<Rightarrow> None
                  | Some cv \<Rightarrow> Some \<lparr>path = pv, content = cv\<rparr>))))"

definition metadataOf :: "xml \<Rightarrow> PRMetadata option" where
  "metadataOf root =
     (case named ''pullRequest'' root of
        [] \<Rightarrow> None
      | p # ps \<Rightarrow>
         (case named ''title'' p of
            [] \<Rightarrow> None
          | t # ts \<Rightarrow>
             (case named ''body'' p of
                [] \<Rightarrow> None
              | b # bs \<Rightarrow>
                 (case xml2js t of
                    None \<Rightarrow> None
                  | Some tv \<Rightarrow>
                     (case xml2js b of
                        None \<Rightarrow> None
                      | Some bv \<Rightarrow> Some \<lparr>title = tv, body = bv\<rparr>)))))"

definition decoded :: "xml \<Rightarrow> GeneratedContent option" where
  "decoded root =
     (if tag root \<noteq> ''response'' then None
      else case named ''files'' root of
             [] \<Rightarrow> None
           | fs # rest \<Rightarrow>
              (case named ''file'' fs of
                 [] \<Rightarrow> None
               | f # others \<Rightarrow>
                  (case those (map editOf (f # others)) of
                     None \<Rightarrow> None
                   | Some edits \<Rightarrow>
                      (case metadataOf root of
                         None \<Rightarrow> None
                       | Some m \<Rightarrow> Some \<lparr>files = edits, pr = m\<rparr>))))"

text \<open>
  The schema of the reply, read strictly: the root \<open>response\<close> holds one \<open>pullRequest\<close>
  with one \<open>title\<close> and one \<open>body\<close>, then one \<open>files\<close> holding any number of \<open>file\<close>
  elements, each with one \<open>path\<close> and one \<open>content\<close>; the four innermost elements hold
  text only; no attributes; between elements only white space.
\<close>

definition leaf :: "string \<Rightarrow> xml \<Rightarrow> bool" where
  "leaf name e = (tag e = name \<and> attributes e = [] \<and> elems (kids e) = [])"

definition isFile :: "xml \<Rightarrow> bool" where
  "isFile f =
     (tag f = ''file'' \<and> attributes f = [] \<and> list_all space (charData (kids f)) \<and>
      (case elems (kids f) of
         [p, c] \<Rightarrow> leaf ''path'' p \<and> leaf ''content'' c
       | _ \<Rightarrow> False))"

definition isPullRequest :: "xml \<Rightarrow> bool" where
  "isPullRequest p =
     (tag p = ''pullRequest'' \<and> attributes p = [] \<and> list_all space (charData (kids p)) \<and>
      (case elems (kids p) of
         [t, b] \<Rightarrow> leaf ''title'' t \<and> leaf ''body'' b
       | _ \<Rightarrow> False))"

definition isFiles :: "xml \<Rightarrow> bool" where
  "isFiles fs =
     (tag fs = ''files'' \<and> attributes fs = [] \<and> list_all space (charData (kids fs)) \<and>
      list_all isFile (elems (kids fs)))"

definition matchesSchema :: "xml \<Rightarrow> bool" where
  "matchesSchema root =
     (tag root = ''response'' \<and> attributes root = [] \<and>
      list_all space (charData (kids root)) \<and>
      (case elems (kids root) of
         [p, fs] \<Rightarrow> isPullRequest p \<and> isFiles fs
       | _ \<Rightarrow> False))"

text \<open>The \<open>file\<close> elements of such a document, and the edit and the metadata it spells out.\<close>

definition fileElements :: "xml \<Rightarrow> xml list" where
  "fileElements root = (case elems (kids root) of [p, fs] \<Rightarrow> elems (kids fs) | _ \<Rightarrow> [])"

definition textOf :: "xml \<Rightarrow> string" where
  "textOf e = charData (kids e)"

definition schemaEdit :: "xml \<Rightarrow> FileContent" where
  "schemaEdit f =
     (case elems (kids f) of
        p # c # rest \<Rightarrow> \<lparr>path = JStr (textOf p), content = JStr (textOf c)\<rparr>
      | _ \<Rightarrow> \<lparr>path = JUndefined, content = JUndefined\<rparr>)"

definition schemaMetadata :: "xml \<Rightarrow> PRMetadata" where
  "schemaMetadata root =
     (case elems (kids root) of
        p # rest \<Rightarrow>
          (case elems (kids p) of
             t # b # others \<Rightarrow> \<lparr>title = JStr (textOf t), body = JStr (textOf b)\<rparr>
           | _ \<Rightarrow> \<lparr>title = JUndefined, body = JUndefined\<rparr>)
      | _ \<Rightarrow> \<lparr>title = JUndefined, body = JUndefined\<rparr>)"

text \<open>
  The response parser as \<open>createAutomatedPR\<close> runs it on the model's text: the
  extraction, then the decoding of what it returned.
\<close>

definition parseResponse ::
  "(string \<Rightarrow> xml option) \<Rightarrow> (xml \<Rightarrow> error + jsval) \<Rightarrow> string \<Rightarrow> error + GeneratedContent" where
  "parseResponse rd other rawResponse =
     andThen (extractXMLFromResponse rawResponse) (parseModelResponse rd other)"

text \<open>
  \<open>firstAt s pat i\<close>: the first occurrence of \<open>pat\<close> in \<open>s\<close> starts at index \<open>i\<close>.
\<close>

definition firstAt :: "string \<Rightarrow> string \<Rightarrow> nat \<Rightarrow> bool" where
  "firstAt s pat i =
     (take (length pat) (drop i s) = pat \<and>
      list_all (\<lambda>j. take (length pat) (drop j s) \<noteq> pat) [0..<i])"

text \<open>The reply of the end-to-end scenario, as text and as the document it spells.\<close>

definition addLoggingXml :: string where
  "addLoggingXml =
     ''<response><pullRequest><title>Add Logging</title><body>Adds a logger.</body></pullRequest>'' @
     ''<files><file><path>src/log.ts</path><content>export const log = console.log;</content></file></files>'' @
     ''</response>''"

definition addLoggingDoc :: xml where
  "addLoggingDoc =
     Element ''response'' []
       [Child (Element ''pullRequest'' []
              [Child (Element ''title'' [] [Text ''Add Logging'']),
               Child (Element ''body'' [] [Text ''Adds a logger.''])]),
        Child (Element ''files'' []
              [Child (Element ''file'' []
                     [Child (Element ''path'' [] [Text ''src/log.ts'']),
                      Child (Element ''content'' [] [Text ''export const log = console.log;''])])])]"

text \<open>
  An edit whose path and content are strings, the request the loop sends for it, and,
  among a list of requests, the contents sent to a path by the file writes, in order.
\<close>

definition edit :: "string \<times> string \<Rightarrow> FileContent" where
  "edit pc = \<lparr>path = JStr (fst pc), content = JStr (snd pc)\<rparr>"

definition fileWrite :: "string \<Rightarrow> string \<times> string \<Rightarrow> call" where
  "fileWrite branch pc =
     CreateOrUpdateFileContents (JStr (fst pc)) (''Update '' @ fst pc) (snd pc) branch"

fun writesTo :: "string \<Rightarrow> call list \<Rightarrow> string list" where
  "writesTo p [] = []"
| "writesTo p (CreateOrUpdateFileContents q message text branch # cs) =
     (if q = JStr p then text # writesTo p cs else writesTo p cs)"
| "writesTo p (c # cs) = writesTo p cs"

text \<open>The example world, with the model replying with the scenario's text.\<close>

definition world1 :: world where
  "world1 = world0\<lparr>completion := (\<lambda>system user. Some (addLoggingXml, ''Add a logger module.'')),
                     sax := (\<lambda>str. if str = addLoggingXml then Some addLoggingDoc else None)\<rparr>"

section \<open>Properties\<close>

subsection \<open>The slug\<close>

lemma hyphen_not_alnum: "\<not> alnum (CHR ''-'')"
  by (simp add: alnum_def)

lemma dropWhile_head_alnum: "dropWhile (\<lambda>d. \<not> alnum d) cs = d # r \<Longrightarrow> alnum d"
  using hd_dropWhile[of "\<lambda>d. \<not> alnum d" cs] by auto

lemma tidy_replaceRuns: "tidy (replaceRuns s)"
proof (induction s rule: replaceRuns.induct)
  case 1
  show ?case by simp
next
  case (2 c cs)
  show ?case
  proof (cases "alnum c")
    case True
    with 2 show ?thesis by (cases "replaceRuns cs") auto
  next
    case False
    let ?rest = "dropWhile (\<lambda>d. \<not> alnum d) cs"
    from False 2 have t: "tidy (replaceRuns ?rest)" by simp
    have step: "replaceRuns (c # cs) = CHR ''-'' # replaceRuns ?rest"
      using False by simp
    show ?thesis
    proof (cases ?rest)
      case Nil
      from step show ?thesis unfolding Nil by simp
    next
      case (Cons d r)
      then have d: "alnum d" by (rule dropWhile_head_alnum)
      have "replaceRuns ?rest = d # replaceRuns r"
        unfolding Cons using d by simp
      with step t d show ?thesis by simp
    qed
  qed
qed

lemma replaceRuns_tidy: "tidy x \<Longrightarrow> replaceRuns x = x"
  by (induction x rule: tidy.induct) (auto simp: hyphen_not_alnum)

lemma tidy_chars: "tidy x \<Longrightarrow> c \<in> set x \<Longrightarrow> alnum c \<or> c = CHR ''-''"
  by (induction x rule: tidy.induct) auto

lemma lower_char_fixed: "alnum c \<or> c = CHR ''-'' \<Longrightarrow> lower_char c = c"
  unfolding alnum_def by (auto simp: lower_char_def)

lemma toLowerCase_tidy: "tidy x \<Longrightarrow> toLowerCase x = x"
  unfolding toLowerCase_def by (rule map_idI) (rule lower_char_fixed, rule tidy_chars)

lemma slug_chars:
  "c \<in> set (slugify t) \<Longrightarrow> c \<in> set ''abcdefghijklmnopqrstuvwxyz0123456789-''"
proof -
  assume "c \<in> set (slugify t)"
  with tidy_replaceRuns have "alnum c \<or> c = CHR ''-''"
    unfolding slugify_def by (rule tidy_chars)
  then show ?thesis unfolding alnum_def by auto
qed

lemma digit_char: "d < 10 \<Longrightarrow> ''0123456789'' ! d \<in> set ''0123456789''"
  by (intro nth_mem) simp

lemma numberToString_digits: "c \<in> set (numberToString n) \<Longrightarrow> c \<in> set ''0123456789''"
proof (induction n arbitrary: c rule: numberToString.induct)
  case (1 n)
  show ?case
  proof (cases "n < 10")
    case True
    then have "numberToString n = [''0123456789'' ! n]"
      by (subst numberToString.simps) simp
    with 1(2) have "c = ''0123456789'' ! n" by simp
    with True show ?thesis using digit_char by blast
  next
    case False
    then have "numberToString n = numberToString (n div 10) @ [''0123456789'' ! (n mod 10)]"
      by (subst numberToString.simps) simp
    with 1(2) have "c \<in> set (numberToString (n div 10)) \<or> c = ''0123456789'' ! (n mod 10)"
      by auto
    then show ?thesis
    proof
      assume "c \<in> set (numberToString (n div 10))"
      with False show ?thesis by (intro 1(1)) simp_all
    next
      assume "c = ''0123456789'' ! (n mod 10)"
      moreover have "n mod 10 < 10" by simp
      ultimately show ?thesis using digit_char by blast
    qed
  qed
qed

lemma numberToString_nonempty: "numberToString n \<noteq> []"
  by (subst numberToString.simps) simp

text \<open>
  C6: lower-casing a title and replacing every run of characters outside \<open>[a-z0-9]\<close> by
  one hyphen gives a string that the same rule leaves unchanged.
\<close>

theorem slugify_idempotent: "slugify (slugify t) = slugify t"
  by (simp add: slugify_def tidy_replaceRuns toLowerCase_tidy replaceRuns_tidy)

text \<open>
  C10: the derived branch name is \<open>feature/\<close>, the slug, a hyphen and the timestamp;
  the slug has only lower-case ASCII letters, digits and hyphens, the timestamp is a
  non-empty string of decimal digits, and so every character after the prefix
  \<open>feature/\<close> is in \<open>[a-z0-9-]\<close>.
\<close>

theorem newBranch_form:
  "newBranch t ms = ''feature/'' @ slugify t @ ''-'' @ numberToString ms
   \<and> (\<forall>c \<in> set (slugify t). c \<in> set ''abcdefghijklmnopqrstuvwxyz0123456789-'')
   \<and> numberToString ms \<noteq> []
   \<and> (\<forall>c \<in> set (numberToString ms). c \<in> set ''0123456789'')
   \<and> (\<forall>c \<in> set (drop (length ''feature/'') (newBranch t ms)).
          c \<in> set ''abcdefghijklmnopqrstuvwxyz0123456789-'')"
proof (intro conjI ballI)
  show "newBranch t ms = ''feature/'' @ slugify t @ ''-'' @ numberToString ms"
    by (simp add: newBranch_def)
  show "numberToString ms \<noteq> []" by (rule numberToString_nonempty)
  fix c
  { assume "c \<in> set (slugify t)"
    then show "c \<in> set ''abcdefghijklmnopqrstuvwxyz0123456789-''" by (rule slug_chars) }
  { assume "c \<in> set (numberToString ms)"
    then show "c \<in> set ''0123456789''" by (rule numberToString_digits) }
  { assume "c \<in> set (drop (length ''feature/'') (newBranch t ms))"
    then have "c \<in> set (slugify t) \<or> c = CHR ''-'' \<or> c \<in> set (numberToString ms)"
      by (auto simp: newBranch_def)
    then show "c \<in> set ''abcdefghijklmnopqrstuvwxyz0123456789-''"
    proof (elim disjE)
      assume "c \<in> set (slugify t)"
      then show ?thesis by (rule slug_chars)
    next
      assume "c = CHR ''-''"
      then show ?thesis by simp
    next
      assume "c \<in> set (numberToString ms)"
      then have "c \<in> set ''0123456789''" by (rule numberToString_digits)
      then show ?thesis by auto
    qed }
qed

theorem newBranch_form_witness:
  "newBranch ''Add Logging'' 1730000000000 = ''feature/add-logging-1730000000000''
   \<and> set ''add-logging'' \<subseteq> set ''abcdefghijklmnopqrstuvwxyz0123456789-''
   \<and> set ''1730000000000'' \<subseteq> set ''0123456789''
   \<and> set ''add-logging-1730000000000'' \<subseteq> set ''abcdefghijklmnopqrstuvwxyz0123456789-''"
proof -
  have s: "slugify ''Add Logging'' = ''add-logging''"
    by (simp add: slugify_def toLowerCase_def lower_char_def alnum_def char_of_def bit_0)
  have n: "numberToString 1730000000000 = ''1730000000000''"
    by (simp add: numberToString.simps)
  have b: "newBranch ''Add Logging'' 1730000000000 = ''feature/add-logging-1730000000000''"
    by (simp add: newBranch_def s n)
  from newBranch_form [of "''Add Logging''" 1730000000000] show ?thesis
    unfolding b s n by simp
qed

subsection \<open>The walk\<close>

lemma forItems_completed:
  "\<not> list_ex blobFailed items \<Longrightarrow>
     repoFiles (fst (forItems items)) = concat (map contribution items)
     \<and> errors (fst (forItems items)) = concat (map reported items)
     \<and> snd (forItems items)"
proof (induction items)
  case Nil
  show ?case by simp
next
  case (Cons i items)
  then show ?case
    by (cases i rule: contribution.cases) (auto simp: Let_def split: prod.splits)
qed

lemma forItems_interrupted:
  "\<not> list_ex blobFailed pre \<Longrightarrow>
     repoFiles (fst (forItems (pre @ File q s None # post))) = concat (map contribution pre)
     \<and> errors (fst (forItems (pre @ File q s None # post))) = concat (map reported pre)
     \<and> \<not> snd (forItems (pre @ File q s None # post))"
proof (induction pre)
  case Nil
  show ?case by simp
next
  case (Cons i pre)
  then show ?case
    by (cases i rule: contribution.cases) (auto simp: Let_def split: prod.splits)
qed

text \<open>
  C2, as the claim words it, fails: in the directory \<open>d\<close> the blob of the second file
  cannot be fetched, and the first file of \<open>d\<close> is in the returned list all the same,
  where the claim has \<open>d\<close> contribute nothing.
\<close>

theorem subtree_partial_counterexample:
  "repoFiles (getRepoFiles [] (Contents
       [Dir ''d'' (Contents [File ''d/a'' ''1'' (Some ''A''), File ''d/b'' ''2'' None,
                             File ''d/c'' ''3'' (Some ''C'')]),
        File ''e'' ''4'' (Some ''E'')]))
     = [\<lparr>RepoFile.path = ''d/a'', content = ''A'', sha = ''1''\<rparr>,
        \<lparr>RepoFile.path = ''e'', content = ''E'', sha = ''4''\<rparr>]
   \<and> claimedFiles (Contents
       [Dir ''d'' (Contents [File ''d/a'' ''1'' (Some ''A''), File ''d/b'' ''2'' None,
                             File ''d/c'' ''3'' (Some ''C'')]),
        File ''e'' ''4'' (Some ''E'')])
     = [\<lparr>RepoFile.path = ''e'', content = ''E'', sha = ''4''\<rparr>]"
  by simp

text \<open>
  C2, amended: a directory whose listing fails contributes no file and its path is
  logged; a directory in which a blob request fails contributes what its entries before
  the failing one contribute and nothing of the later ones, and its path is logged after
  the errors of its subdirectories; a loop with no failing blob request runs over all
  its entries, whatever happened inside its subdirectories.
\<close>

theorem getRepoFiles_best_effort:
  "(repoFiles (getRepoFiles p Throws) = [] \<and> errors (getRepoFiles p Throws) = [p])
   \<and> (\<not> list_ex blobFailed pre \<longrightarrow>
        repoFiles (getRepoFiles p (Contents (pre @ File q s None # post)))
          = concat (map contribution pre)
        \<and> errors (getRepoFiles p (Contents (pre @ File q s None # post)))
          = concat (map reported pre) @ [p])
   \<and> (\<not> list_ex blobFailed items \<longrightarrow>
        repoFiles (getRepoFiles p (Contents items)) = concat (map contribution items)
        \<and> errors (getRepoFiles p (Contents items)) = concat (map reported items))"
  using forItems_completed [of items] forItems_interrupted [of pre q s post]
  by (auto simp: Let_def split: prod.splits)

theorem getRepoFiles_best_effort_witness:
  "repoFiles (getRepoFiles ''d'' (Contents ([File ''d/a'' ''1'' (Some ''A'')] @ File ''d/b'' ''2'' None # [File ''d/c'' ''3'' (Some ''C'')])))
     = [\<lparr>RepoFile.path = ''d/a'', content = ''A'', sha = ''1''\<rparr>]
   \<and> errors (getRepoFiles ''d'' (Contents ([File ''d/a'' ''1'' (Some ''A'')] @ File ''d/b'' ''2'' None # [File ''d/c'' ''3'' (Some ''C'')]))) = [''d'']
   \<and> repoFiles (getRepoFiles [] (Contents [Dir ''d'' Throws, File ''e'' ''4'' (Some ''E'')]))
     = [\<lparr>RepoFile.path = ''e'', content = ''E'', sha = ''4''\<rparr>]
   \<and> errors (getRepoFiles [] (Contents [Dir ''d'' Throws, File ''e'' ''4'' (Some ''E'')])) = [''d'']"
  using getRepoFiles_best_effort [of "''d''" "[File ''d/a'' ''1'' (Some ''A'')]" "''d/b''" "''2''"
      "[File ''d/c'' ''3'' (Some ''C'')]" "[Dir ''d'' Throws, File ''e'' ''4'' (Some ''E'')]"]
  by simp


subsection \<open>Searching a string\<close>

lemma indexOf_absent:
  "\<not> (\<exists>pre post. s = pre @ pat @ post) \<Longrightarrow> indexOf s pat = -1"
proof (induction s)
  case Nil
  then show ?case by auto
next
  case (Cons c cs)
  have no_prefix: "take (length pat) (c # cs) \<noteq> pat"
  proof
    assume "take (length pat) (c # cs) = pat"
    then have "c # cs = [] @ pat @ drop (length pat) (c # cs)"
      by (metis append_Nil append_take_drop_id)
    with Cons.prems show False by blast
  qed
  have "\<not> (\<exists>pre post. cs = pre @ pat @ post)"
  proof
    assume "\<exists>pre post. cs = pre @ pat @ post"
    then obtain pre post where "cs = pre @ pat @ post" by blast
    then have "c # cs = (c # pre) @ pat @ post" by simp
    with Cons.prems show False by blast
  qed
  then have "indexOf cs pat = -1" by (rule Cons.IH)
  with no_prefix show ?case by simp
qed

subsection \<open>The requests of a run\<close>

lemma requests_fetch:
  "list_all isFetch (requests (getRepoFiles p l))"
  "list_all isFetch (requests (fst (forItems items)))"
  by (induction p l and items rule: getRepoFiles_forItems.induct)
     (auto simp: Let_def split: prod.splits option.splits)

lemma writeFiles_extends:
  "\<exists>ext. snd (writeFiles w branch h fs) = h @ ext \<and> (\<forall>c \<in> set ext. isPublishing c)"
proof (induction fs arbitrary: h)
  case Nil
  show ?case by simp
next
  case (Cons f fs)
  show ?case
  proof (cases "interpolate w (path f)")
    case (Inl e)
    then show ?thesis by simp
  next
    case p: (Inr p)
    show ?thesis
    proof (cases "bufferFrom w (content f)")
      case (Inl e)
      with p show ?thesis by simp
    next
      case b: (Inr b)
      let ?c = "CreateOrUpdateFileContents (path f) (''Update '' @ p) b branch"
      show ?thesis
      proof (cases "accepts w h ?c")
        case True
        from Cons.IH [of "h @ [?c]"] obtain ext where
          "snd (writeFiles w branch (h @ [?c]) fs) = (h @ [?c]) @ ext" "\<forall>c \<in> set ext. isPublishing c"
          by blast
        then have "snd (writeFiles w branch (h @ [?c]) fs) = h @ (?c # ext) \<and> (\<forall>c \<in> set (?c # ext). isPublishing c)"
          by simp
        with p b True show ?thesis by (simp add: Let_def)
      next
        case False
        with p b show ?thesis by (simp add: Let_def)
      qed
    qed
  qed
qed

lemma publish_extends:
  "\<exists>ext. calls (publish w h reasoning g) = h @ ext \<and> (\<forall>c \<in> set ext. isPublishing c)"
proof (cases "title (pr g)")
  case (JStr t)
  let ?branch = "newBranch t (clock w)"
  let ?h3 = "h @ [ReposGet, GetRef (''heads/'' @ default_branch w),
       CreateRef (''refs/heads/'' @ ?branch) (head_sha w (''heads/'' @ default_branch w))]"
  obtain ext where ext: "snd (writeFiles w ?branch ?h3 (files g)) = ?h3 @ ext"
      "\<forall>c \<in> set ext. isPublishing c"
    using writeFiles_extends by blast
  obtain r h4 where r: "writeFiles w ?branch ?h3 (files g) = (r, h4)" by (cases "writeFiles w ?branch ?h3 (files g)")
  with ext have h4: "h4 = ?h3 @ ext" by simp
  show ?thesis
    unfolding publish_def Let_def
    using JStr r h4 ext(2)
    by (auto split: option.splits sum.splits)
qed (auto simp: publish_def Let_def)

lemma isFetch_classes: "isFetch c \<Longrightarrow> \<not> isWrite c \<and> \<not> isCompletion c"
  by (cases c) auto

lemma isPublishing_classes: "isPublishing c \<Longrightarrow> \<not> isCompletion c"
  by (cases c) auto

lemma filter_none: "(\<And>c. c \<in> set xs \<Longrightarrow> \<not> P c) \<Longrightarrow> filter P xs = []"
  by (induction xs) auto

lemma fetch_no_writes: "filter isWrite (requests (getRepoFiles p l)) = []"
  using requests_fetch(1) [of p l] isFetch_classes
  by (intro filter_none) (auto simp: list_all_iff)

lemma fetch_no_completions: "filter isCompletion (requests (getRepoFiles p l)) = []"
  using requests_fetch(1) [of p l] isFetch_classes
  by (intro filter_none) (auto simp: list_all_iff)

text \<open>
  C5: when the text the model returns contains no \<open><response>\<close> anywhere, the run ends
  with the extraction's error and has sent no write request to the host: no branch, no
  file, no pull request, no comment.
\<close>

theorem no_response_tag_no_writes:
  assumes "completion w (instructions @ codebaseContext (repoFiles (getRepoFiles [] (tree w))))
             (stdin w) = Some (rawResponse, reasoning)"
    and "\<not> (\<exists>pre post. rawResponse = pre @ ''<response>'' @ post)"
  shows "outcome (createAutomatedPR w) = Inl (Error ''Could not find valid XML in model response'')
         \<and> filter isWrite (calls (createAutomatedPR w)) = []"
proof -
  from assms(2) have "indexOf rawResponse ''<response>'' = -1" by (rule indexOf_absent)
  then have "extractXMLFromResponse rawResponse
               = Inl (Error ''Could not find valid XML in model response'')"
    by (simp add: extractXMLFromResponse_def Let_def)
  with assms(1) show ?thesis
    by (simp add: createAutomatedPR_def Let_def fetch_no_writes)
qed

theorem no_response_tag_no_writes_witness:
  "completion world0 (instructions @ codebaseContext (repoFiles (getRepoFiles [] (tree world0))))
      (stdin world0) = Some (''I cannot help with that.'', ''none'')
   \<and> \<not> (\<exists>pre post. ''I cannot help with that.'' = pre @ ''<response>'' @ post)
   \<and> outcome (createAutomatedPR world0) = Inl (Error ''Could not find valid XML in model response'')
   \<and> filter isWrite (calls (createAutomatedPR world0)) = []"
proof -
  have c: "completion world0 (instructions @ codebaseContext (repoFiles (getRepoFiles [] (tree world0))))
      (stdin world0) = Some (''I cannot help with that.'', ''none'')"
    by (simp add: world0_def)
  have n: "\<not> (\<exists>pre post. ''I cannot help with that.'' = pre @ ''<response>'' @ post)"
  proof
    assume "\<exists>pre post. ''I cannot help with that.'' = pre @ ''<response>'' @ post"
    then obtain pre post where "''I cannot help with that.'' = pre @ ''<response>'' @ post"
      by blast
    then have "set ''I cannot help with that.'' = set (pre @ ''<response>'' @ post)" by simp
    then have "CHR ''<'' \<in> set ''I cannot help with that.''" by simp
    then show False by simp
  qed
  from no_response_tag_no_writes [OF c n] c n show ?thesis by blast
qed

text \<open>
  C9: every run sends exactly one completion request; its system message is the fixed
  instructions followed by the fetched files, each rendered as its path, a colon, a line
  break and its content, joined by two line breaks; its user message is the line read
  from the prompt.
\<close>

theorem messages_sent:
  "filter isCompletion (calls (createAutomatedPR w))
     = [GenerateText
          (instructions @
           join ''\<newline>\<newline>''
             (map (\<lambda>f. RepoFile.path f @ '':\<newline>'' @ RepoFile.content f)
                (repoFiles (getRepoFiles [] (tree w)))))
          (stdin w)]"
proof -
  let ?sys = "instructions @ codebaseContext (repoFiles (getRepoFiles [] (tree w)))"
  let ?h = "requests (getRepoFiles [] (tree w)) @ [GenerateText ?sys (stdin w)]"
  have h: "filter isCompletion ?h = [GenerateText ?sys (stdin w)]"
    by (simp add: fetch_no_completions)
  have pub: "filter isCompletion (calls (publish w ?h r g)) = [GenerateText ?sys (stdin w)]" for r g
  proof -
    obtain ext where ext: "calls (publish w ?h r g) = ?h @ ext" "\<forall>c \<in> set ext. isPublishing c"
      using publish_extends by blast
    have "filter isCompletion ext = []"
      using ext(2) isPublishing_classes by (intro filter_none) auto
    with ext(1) h show ?thesis by simp
  qed
  have "filter isCompletion (calls (createAutomatedPR w)) = [GenerateText ?sys (stdin w)]"
    unfolding createAutomatedPR_def Let_def
    using h pub by (auto split: option.splits sum.splits prod.splits)
  then show ?thesis by (simp add: codebaseContext_def)
qed

text \<open>The context of two files.\<close>

lemma codebaseContext_two:
  "codebaseContext [\<lparr>RepoFile.path = ''a'', content = ''A'', sha = ''1''\<rparr>,
       \<lparr>RepoFile.path = ''b'', content = ''B'', sha = ''2''\<rparr>]
     = ''a:\<newline>A\<newline>\<newline>b:\<newline>B''"
  by (simp add: codebaseContext_def)

subsection \<open>Decoding the document\<close>

lemma map_of_assignOrPush:
  "assignOrPush obj k v = Some obj' \<Longrightarrow>
     map_of obj' key = (if key = k then pushed (map_of obj k) [v] else map_of obj key)"
  by (auto simp: assignOrPush_def update_conv' map_add_def
           split: if_splits option.splits jsval.splits)

lemma pushed_pushed: "pushed (pushed r [v]) vs = pushed r (v # vs)"
  by (cases "(r, vs)" rule: pushed.cases) auto

lemma xml2js_tag: "xml2js e = Some v \<Longrightarrow> tag e \<notin> set reserved"
  by (cases e) (simp split: if_splits)

lemma map_of_children:
  "children ks obj = Some obj' \<Longrightarrow>
     map_of obj' key
       = pushed (map_of obj key) (map (the \<circ> xml2js) (filter (\<lambda>k. tag k = key) (elems ks)))
     \<and> list_all covered (elems ks)"
proof (induction ks arbitrary: obj)
  case Nil
  then show ?case by simp
next
  case (Cons k ks)
  show ?case
  proof (cases k)
    case (Text t)
    with Cons show ?thesis by simp
  next
    case (CData t)
    with Cons show ?thesis by simp
  next
    case (Child e)
    with Cons.prems obtain v mid where
      e: "xml2js e = Some v" and a: "assignOrPush obj (tag e) v = Some mid"
      and r: "children ks mid = Some obj'"
      by (auto split: option.splits)
    from Cons.IH [OF r] have
      ih: "map_of obj' key
             = pushed (map_of mid key) (map (the \<circ> xml2js) (filter (\<lambda>k. tag k = key) (elems ks)))"
      and c: "list_all covered (elems ks)"
      by blast+
    from e have ce: "covered e" by (simp add: covered_def)
    show ?thesis
      unfolding ih map_of_assignOrPush [OF a] using e c ce
      by (simp add: Child pushed_pushed comp_def)
  qed
qed

lemma assignOrPush_total:
  "key \<notin> set reserved \<Longrightarrow> \<exists>mid. assignOrPush obj key v = Some mid"
proof (cases "map_of obj key")
  case None
  then show ?thesis if "key \<notin> set reserved" using that by (simp add: assignOrPush_def)
next
  case (Some old)
  then show ?thesis if "key \<notin> set reserved"
    using that by (cases old) (simp_all add: assignOrPush_def)
qed

lemma children_covered:
  "list_all covered (elems ks) \<Longrightarrow> \<exists>obj'. children ks obj = Some obj'"
proof (induction ks arbitrary: obj)
  case Nil
  show ?case by simp
next
  case (Cons k ks)
  show ?case
  proof (cases k)
    case (Text t)
    with Cons show ?thesis by simp
  next
    case (CData t)
    with Cons show ?thesis by simp
  next
    case (Child e)
    with Cons.prems have ce: "covered e" and c: "list_all covered (elems ks)"
      by simp_all
    from ce obtain v where e: "xml2js e = Some v" by (auto simp: covered_def)
    from e have "tag e \<notin> set reserved" by (rule xml2js_tag)
    then obtain mid where a: "assignOrPush obj (tag e) v = Some mid"
      using assignOrPush_total by blast
    from Cons.IH [OF c, of mid] e a show ?thesis by (simp add: Child)
  qed
qed

lemma covered_iff:
  "covered e \<longleftrightarrow>
     tag e \<notin> set reserved \<and> distinct (map fst (attributes e))
     \<and> ''__proto__'' \<notin> set (map fst (attributes e)) \<and> list_all covered (elems (kids e))"
proof (cases e)
  case (Element name as ks)
  show ?thesis
  proof
    assume "covered e"
    then obtain v where v: "xml2js e = Some v" by (auto simp: covered_def)
    then obtain init obj where
      i: "attrObject as = Some init" and c: "children ks init = Some obj"
      and n: "name \<notin> set reserved"
      unfolding Element by (auto simp: Let_def split: if_splits option.splits)
    from map_of_children [OF c] have "list_all covered (elems ks)" by blast
    moreover from i have "distinct (map fst as) \<and> ''__proto__'' \<notin> set (map fst as)"
      by (auto simp: attrObject_def split: if_splits)
    ultimately show "tag e \<notin> set reserved \<and> distinct (map fst (attributes e))
      \<and> ''__proto__'' \<notin> set (map fst (attributes e)) \<and> list_all covered (elems (kids e))"
      using n by (simp add: Element)
  next
    assume r: "tag e \<notin> set reserved \<and> distinct (map fst (attributes e))
      \<and> ''__proto__'' \<notin> set (map fst (attributes e)) \<and> list_all covered (elems (kids e))"
    then obtain init where i: "attrObject as = Some init"
      by (cases "as = []") (auto simp: attrObject_def Element)
    from r obtain obj where "children ks init = Some obj"
      using children_covered [of ks init] by (auto simp: Element)
    with r i show "covered e"
      unfolding covered_def Element by (simp add: Let_def)
  qed
qed

lemma getProp_xml2js:
  assumes "xml2js e = Some v" "key \<noteq> ''$''" "key \<noteq> ''_''"
  shows "getProp v key
           = Inr (case named key e of [] \<Rightarrow> JUndefined
                  | k # ks \<Rightarrow> JArr (map (the \<circ> xml2js) (k # ks)))"
proof (cases e)
  case (Element name as ks)
  from assms(1) obtain init obj where
    i: "attrObject as = Some init" and c: "children ks init = Some obj"
    and v: "v = (if obj = [] then JStr (charData ks)
                 else if list_all space (charData ks) \<and> \<not> hasCData ks then JObj obj
                 else JObj ((''_'', JStr (charData ks)) # obj))"
    unfolding Element by (auto simp: Let_def split: if_splits option.splits)
  have init: "map_of init key = None"
    using i assms(2) by (auto simp: attrObject_def split: if_splits)
  have look: "map_of obj key = pushed None (map (the \<circ> xml2js) (named key e))"
    using map_of_children [OF c, of key] init by (simp add: named_def Element)
  show ?thesis
  proof (cases "named key e")
    case Nil
    with look have "map_of obj key = None" by simp
    with Nil show ?thesis using assms(3) by (simp add: v)
  next
    case (Cons k rest)
    with look have l: "map_of obj key = Some (JArr (map (the \<circ> xml2js) (k # rest)))"
      by simp
    then have "obj \<noteq> []" by auto
    with l Cons show ?thesis using assms(3) by (simp add: v)
  qed
qed

lemma named_covered:
  assumes "xml2js e = Some v" "k \<in> set (named key e)"
  shows "\<exists>kv. xml2js k = Some kv"
proof -
  from assms(1) have "covered e" by (simp add: covered_def)
  then have "list_all covered (elems (kids e))" using covered_iff by blast
  with assms(2) have "covered k" by (auto simp: named_def list_all_iff)
  then show ?thesis by (simp add: covered_def)
qed

lemma bind_named:
  assumes "xml2js e = Some v" "key \<noteq> ''$''" "key \<noteq> ''_''"
  shows "andThen (getProp v key) (\<lambda>x. andThen (first x) F)
           = (case named key e of [] \<Rightarrow> Inl TypeError | k # ks \<Rightarrow> F (the (xml2js k)))"
  using assms by (simp add: getProp_xml2js andThen_def split: list.splits)


lemma edit_step:
  assumes "xml2js f = Some fv"
  shows "andThen (getProp fv ''path'') (\<lambda>paths.
     andThen (first paths) (\<lambda>path0.
     andThen (getProp fv ''content'') (\<lambda>contents.
     andThen (first contents) (\<lambda>content0.
     Inr \<lparr>path = path0, content = content0\<rparr>))))
   = (case editOf f of None \<Rightarrow> Inl TypeError | Some e \<Rightarrow> Inr e)"
proof -
  have c: "\<exists>kv. xml2js k = Some kv" if "k \<in> set (named key f)" for k key
    using assms that by (rule named_covered)
  show ?thesis
  proof (cases "named ''path'' f")
    case Nil
    then show ?thesis by (simp add: bind_named [OF assms] editOf_def)
  next
    case p: (Cons p ps)
    then obtain pv where pv: "xml2js p = Some pv" using c [of p "''path''"] by auto
    show ?thesis
    proof (cases "named ''content'' f")
      case Nil
      with p show ?thesis by (simp add: bind_named [OF assms] editOf_def)
    next
      case (Cons q qs)
      then obtain qv where qv: "xml2js q = Some qv" using c [of q "''content''"] by auto
      with p Cons pv show ?thesis by (simp add: bind_named [OF assms] editOf_def)
    qed
  qed
qed

lemma metadata_step:
  assumes "xml2js root = Some rv"
  shows "andThen (getProp rv ''pullRequest'') (\<lambda>prs.
     andThen (first prs) (\<lambda>pr0.
     andThen (getProp pr0 ''title'') (\<lambda>titles.
     andThen (first titles) (\<lambda>title0.
     andThen (getProp pr0 ''body'') (\<lambda>bodies.
     andThen (first bodies) (\<lambda>body0.
     Inr \<lparr>files = fs, pr = \<lparr>title = title0, body = body0\<rparr>\<rparr>))))))
   = (case metadataOf root of None \<Rightarrow> Inl TypeError | Some m \<Rightarrow> Inr \<lparr>files = fs, pr = m\<rparr>)"
proof (cases "named ''pullRequest'' root")
  case Nil
  then show ?thesis by (simp add: bind_named [OF assms] metadataOf_def)
next
  case p: (Cons p ps)
  then obtain pv where pv: "xml2js p = Some pv"
    using named_covered [OF assms, of p "''pullRequest''"] by auto
  have c: "\<exists>kv. xml2js k = Some kv" if "k \<in> set (named key p)" for k key
    using pv that by (rule named_covered)
  show ?thesis
  proof (cases "named ''title'' p")
    case Nil
    with p pv show ?thesis by (simp add: bind_named [OF assms] bind_named [OF pv] metadataOf_def)
  next
    case t: (Cons t ts)
    then obtain tv where tv: "xml2js t = Some tv" using c [of t "''title''"] by auto
    show ?thesis
    proof (cases "named ''body'' p")
      case Nil
      with p pv t show ?thesis
        by (simp add: bind_named [OF assms] bind_named [OF pv] metadataOf_def)
    next
      case (Cons b bs)
      then obtain bv where bv: "xml2js b = Some bv" using c [of b "''body''"] by auto
      with p pv t tv Cons show ?thesis
        by (simp add: bind_named [OF assms] bind_named [OF pv] metadataOf_def)
    qed
  qed
qed

lemma traverse_those:
  assumes "\<And>x. x \<in> set xs \<Longrightarrow> g (h x) = (case k x of None \<Rightarrow> Inl TypeError | Some e \<Rightarrow> Inr e)"
  shows "traverse g (map h xs) = (case those (map k xs) of None \<Rightarrow> Inl TypeError | Some es \<Rightarrow> Inr es)"
  using assms by (induction xs) (auto simp: andThen_def split: option.splits)

lemma reads_decoded:
  assumes "xml2js root = Some rv" "tag root = ''response''"
  shows "andThen (getProp rv ''files'') (\<lambda>filesArr.
        andThen (first filesArr) (\<lambda>files0.
        andThen (getProp files0 ''file'') (\<lambda>fileArr.
        andThen (mapArray (\<lambda>file.
                andThen (getProp file ''path'') (\<lambda>paths.
                andThen (first paths) (\<lambda>path0.
                andThen (getProp file ''content'') (\<lambda>contents.
                andThen (first contents) (\<lambda>content0.
                Inr \<lparr>path = path0, content = content0\<rparr>))))) fileArr) (\<lambda>fs.
        andThen (getProp rv ''pullRequest'') (\<lambda>prs.
        andThen (first prs) (\<lambda>pr0.
        andThen (getProp pr0 ''title'') (\<lambda>titles.
        andThen (first titles) (\<lambda>title0.
        andThen (getProp pr0 ''body'') (\<lambda>bodies.
        andThen (first bodies) (\<lambda>body0.
        Inr \<lparr>files = fs, pr = \<lparr>title = title0, body = body0\<rparr>\<rparr>))))))))))
     = (case decoded root of None \<Rightarrow> Inl TypeError | Some g \<Rightarrow> Inr g)"
proof (cases "named ''files'' root")
  case Nil
  then show ?thesis using assms(2) by (simp add: bind_named [OF assms(1)] decoded_def)
next
  case fs: (Cons fs rest)
  then obtain fsv where fsv: "xml2js fs = Some fsv"
    using named_covered [OF assms(1), of fs "''files''"] by auto
  show ?thesis
  proof (cases "named ''file'' fs")
    case Nil
    have "getProp fsv ''file'' = Inr JUndefined"
      using Nil by (simp add: getProp_xml2js [OF fsv])
    then show ?thesis
      unfolding bind_named [OF assms(1), of "''files''", simplified] fs list.case
      by (simp add: andThen_def decoded_def assms(2) fs Nil fsv)
  next
    case fl: (Cons f others)
    have g: "getProp fsv ''file'' = Inr (JArr (map (the \<circ> xml2js) (f # others)))"
      using fl by (simp add: getProp_xml2js [OF fsv])
    have t: "traverse (\<lambda>file.
                andThen (getProp file ''path'') (\<lambda>paths.
                andThen (first paths) (\<lambda>path0.
                andThen (getProp file ''content'') (\<lambda>contents.
                andThen (first contents) (\<lambda>content0.
                Inr \<lparr>path = path0, content = content0\<rparr>))))) (map (the \<circ> xml2js) (f # others))
              = (case those (map editOf (f # others)) of None \<Rightarrow> Inl TypeError | Some es \<Rightarrow> Inr es)"
    proof (rule traverse_those)
      fix x assume "x \<in> set (f # others)"
      then have "x \<in> set (named ''file'' fs)" by (simp add: fl)
      then obtain xv where xv: "xml2js x = Some xv" using named_covered [OF fsv] by blast
      from edit_step [OF xv] xv
      show "andThen (getProp ((the \<circ> xml2js) x) ''path'') (\<lambda>paths.
                andThen (first paths) (\<lambda>path0.
                andThen (getProp ((the \<circ> xml2js) x) ''content'') (\<lambda>contents.
                andThen (first contents) (\<lambda>content0.
                Inr \<lparr>path = path0, content = content0\<rparr>))))
            = (case editOf x of None \<Rightarrow> Inl TypeError | Some e \<Rightarrow> Inr e)"
        by simp
    qed
    show ?thesis
      unfolding bind_named [OF assms(1), of "''files''", simplified] fs list.case
      by (simp add: fsv g andThen_def t [unfolded andThen_def]
            metadata_step [OF assms(1), unfolded andThen_def]
            decoded_def assms(2) fs fl
            del: traverse.simps those.simps list.map split: option.splits)
  qed
qed

lemma parseModelResponse_decoded:
  assumes "\<not> list_all space str" "rd str = Some root" "covered root"
  shows "parseModelResponse rd other str
           = (case decoded root of None \<Rightarrow> Inl TypeError | Some g \<Rightarrow> Inr g)"
proof -
  from assms(3) obtain rv where rv: "xml2js root = Some rv" by (auto simp: covered_def)
  show ?thesis
  proof (cases "tag root = ''response''")
    case False
    with assms(1,2) rv show ?thesis
      by (simp add: parseModelResponse_def parseStringPromise_def andThen_def decoded_def)
  next
    case True
    have "parseModelResponse rd other str =
        andThen (getProp rv ''files'') (\<lambda>filesArr.
        andThen (first filesArr) (\<lambda>files0.
        andThen (getProp files0 ''file'') (\<lambda>fileArr.
        andThen (mapArray (\<lambda>file.
                andThen (getProp file ''path'') (\<lambda>paths.
                andThen (first paths) (\<lambda>path0.
                andThen (getProp file ''content'') (\<lambda>contents.
                andThen (first contents) (\<lambda>content0.
                Inr \<lparr>path = path0, content = content0\<rparr>))))) fileArr) (\<lambda>fs.
        andThen (getProp rv ''pullRequest'') (\<lambda>prs.
        andThen (first prs) (\<lambda>pr0.
        andThen (getProp pr0 ''title'') (\<lambda>titles.
        andThen (first titles) (\<lambda>title0.
        andThen (getProp pr0 ''body'') (\<lambda>bodies.
        andThen (first bodies) (\<lambda>body0.
        Inr \<lparr>files = fs, pr = \<lparr>title = title0, body = body0\<rparr>\<rparr>))))))))))"
      using assms(1,2) rv True
      by (simp add: parseModelResponse_def parseStringPromise_def andThen_def)
    also have "\<dots> = (case decoded root of None \<Rightarrow> Inl TypeError | Some g \<Rightarrow> Inr g)"
      using rv True by (rule reads_decoded)
    finally show ?thesis .
  qed
qed

lemma parseModelResponse_blank:
  "list_all space str \<Longrightarrow> parseModelResponse rd other str = Inl TypeError"
  by (simp add: parseModelResponse_def parseStringPromise_def andThen_def)

lemma parseModelResponse_rejected:
  "\<not> list_all space str \<Longrightarrow> rd str = None \<Longrightarrow> parseModelResponse rd other str = Inl XmlError"
  by (simp add: parseModelResponse_def parseStringPromise_def andThen_def)

lemma children_no_elems: "elems ks = [] \<Longrightarrow> children ks obj = Some obj"
proof (induction ks arbitrary: obj)
  case Nil
  show ?case by simp
next
  case (Cons k ks)
  then show ?case by (cases k) simp_all
qed

lemma xml2js_leaf:
  "leaf name e \<Longrightarrow> name \<notin> set reserved \<Longrightarrow> xml2js e = Some (JStr (textOf e))"
  by (cases e) (simp add: leaf_def textOf_def children_no_elems attrObject_def)

lemma editOf_isFile: "isFile f \<Longrightarrow> editOf f = Some (schemaEdit f)"
proof -
  assume f: "isFile f"
  then obtain p c where pc: "elems (kids f) = [p, c]" "leaf ''path'' p" "leaf ''content'' c"
    by (auto simp: isFile_def split: list.splits)
  then have n: "named ''path'' f = [p]" "named ''content'' f = [c]"
    by (simp_all add: named_def leaf_def)
  have "xml2js p = Some (JStr (textOf p))" "xml2js c = Some (JStr (textOf c))"
    using pc(2,3) by (simp_all add: xml2js_leaf reserved_def)
  with pc n show ?thesis
    by (simp add: editOf_def schemaEdit_def)
qed

lemma those_isFile: "list_all isFile fl \<Longrightarrow> those (map editOf fl) = Some (map schemaEdit fl)"
  by (induction fl) (simp_all add: editOf_isFile)

lemma named_file: "isFiles fs \<Longrightarrow> named ''file'' fs = elems (kids fs)"
  unfolding named_def isFiles_def
  by (intro filter_True) (auto simp: list_all_iff isFile_def)

lemma covered_leaf: "leaf name e \<Longrightarrow> name \<notin> set reserved \<Longrightarrow> covered e"
  by (simp add: covered_def xml2js_leaf)

lemma covered_isFile: "isFile f \<Longrightarrow> covered f"
proof -
  assume f: "isFile f"
  then obtain p c where pc: "elems (kids f) = [p, c]" "leaf ''path'' p" "leaf ''content'' c"
    by (auto simp: isFile_def split: list.splits)
  have "covered p" "covered c"
    using pc(2,3) by (auto intro: covered_leaf simp: reserved_def)
  with f pc(1) show ?thesis
    by (subst covered_iff) (simp add: isFile_def reserved_def)
qed

lemma covered_schema: "matchesSchema root \<Longrightarrow> covered root"
proof -
  assume m: "matchesSchema root"
  then obtain p fs where r: "elems (kids root) = [p, fs]" "isPullRequest p" "isFiles fs"
    by (auto simp: matchesSchema_def split: list.splits)
  from r(2) obtain t b where p: "elems (kids p) = [t, b]" "leaf ''title'' t" "leaf ''body'' b"
    by (auto simp: isPullRequest_def split: list.splits)
  have "covered t" "covered b"
    using p(2,3) by (auto intro: covered_leaf simp: reserved_def)
  with r(2) p(1) have cp: "covered p"
    by (subst covered_iff) (simp add: isPullRequest_def reserved_def)
  have "list_all covered (elems (kids fs))"
    using r(3) covered_isFile by (auto simp: isFiles_def list_all_iff)
  with r(3) have cf: "covered fs"
    by (subst covered_iff) (simp add: isFiles_def reserved_def)
  from m r(1) cp cf show ?thesis
    by (subst covered_iff) (simp add: matchesSchema_def reserved_def)
qed

lemma decoded_schema:
  assumes "matchesSchema root"
  shows "decoded root =
           (if fileElements root = [] then None
            else Some \<lparr>files = map schemaEdit (fileElements root), pr = schemaMetadata root\<rparr>)"
proof -
  from assms obtain p fs where r: "elems (kids root) = [p, fs]" "isPullRequest p" "isFiles fs"
      "tag root = ''response''"
    by (auto simp: matchesSchema_def split: list.splits)
  from r(2) obtain t b where p: "elems (kids p) = [t, b]" "leaf ''title'' t" "leaf ''body'' b"
      "tag p = ''pullRequest''"
    by (auto simp: isPullRequest_def split: list.splits)
  have fs: "tag fs = ''files''" "list_all isFile (elems (kids fs))"
    using r(3) by (simp_all add: isFiles_def)
  have n1: "named ''files'' root = [fs]" "named ''pullRequest'' root = [p]"
    using r(1) p(4) fs(1) by (simp_all add: named_def)
  have n2: "named ''title'' p = [t]" "named ''body'' p = [b]"
    using p by (simp_all add: named_def leaf_def)
  have fe: "fileElements root = elems (kids fs)"
    using r(1) by (simp add: fileElements_def)
  have v: "xml2js t = Some (JStr (textOf t))" "xml2js b = Some (JStr (textOf b))"
    using p(2,3) by (simp_all add: xml2js_leaf reserved_def)
  have m: "metadataOf root = Some (schemaMetadata root)"
    using n1 n2 r(1) p v by (simp add: metadataOf_def schemaMetadata_def)
  have th: "those (map editOf (elems (kids fs))) = Some (map schemaEdit (elems (kids fs)))"
    using fs(2) by (rule those_isFile)
  show ?thesis
  proof (cases "elems (kids fs)")
    case Nil
    then show ?thesis using r(4) n1 fe named_file [OF r(3)] by (simp add: decoded_def)
  next
    case (Cons f others)
    with th show ?thesis
      using r(4) n1 m fe named_file [OF r(3)]
      by (simp add: decoded_def del: those.simps)
  qed
qed

subsection \<open>Cutting out the block\<close>

lemma indexOf_bounds: "indexOf s pat \<ge> -1"
  by (induction s) (auto simp: Let_def)

lemma indexOf_firstAt:
  "pat \<noteq> [] \<Longrightarrow> firstAt s pat i \<Longrightarrow> indexOf s pat = int i"
proof (induction s arbitrary: i)
  case Nil
  then show ?case by (simp add: firstAt_def)
next
  case (Cons c cs)
  from Cons.prems(2) have occ: "take (length pat) (drop i (c # cs)) = pat"
    and none: "\<And>j. j < i \<Longrightarrow> take (length pat) (drop j (c # cs)) \<noteq> pat"
    by (auto simp: firstAt_def list_all_iff)
  show ?case
  proof (cases "take (length pat) (c # cs) = pat")
    case True
    have "i = 0"
    proof (rule ccontr)
      assume "i \<noteq> 0"
      then have "take (length pat) (drop 0 (c # cs)) \<noteq> pat" by (intro none) simp
      with True show False by simp
    qed
    with True show ?thesis by simp
  next
    case False
    with occ have "i \<noteq> 0" by (cases i) auto
    then obtain k where k: "i = Suc k" by (cases i) auto
    have "firstAt cs pat k"
      unfolding firstAt_def list_all_iff
    proof (intro conjI ballI)
      show "take (length pat) (drop k cs) = pat" using occ k by simp
    next
      fix j assume "j \<in> set [0..<k]"
      then have "Suc j < i" using k by simp
      then have "take (length pat) (drop (Suc j) (c # cs)) \<noteq> pat" by (rule none)
      then show "take (length pat) (drop j cs) \<noteq> pat" by simp
    qed
    with Cons.prems(1) have "indexOf cs pat = int k" by (rule Cons.IH)
    with False k show ?thesis by (simp add: Let_def)
  qed
qed

lemma indexOf_occurrence:
  "pat \<noteq> [] \<Longrightarrow> indexOf s pat \<noteq> -1 \<Longrightarrow>
     \<exists>i. indexOf s pat = int i \<and> take (length pat) (drop i s) = pat"
proof (induction s)
  case Nil
  then show ?case by simp
next
  case (Cons c cs)
  show ?case
  proof (cases "take (length pat) (c # cs) = pat")
    case True
    then have "indexOf (c # cs) pat = int 0 \<and> take (length pat) (drop 0 (c # cs)) = pat"
      by simp
    then show ?thesis by blast
  next
    case False
    with Cons.prems(2) have "indexOf cs pat \<noteq> -1" by (auto simp: Let_def split: if_splits)
    with Cons.IH Cons.prems(1) obtain i where
      i: "indexOf cs pat = int i" "take (length pat) (drop i cs) = pat" by blast
    with False have "indexOf (c # cs) pat = int (Suc i)
        \<and> take (length pat) (drop (Suc i) (c # cs)) = pat"
      by (simp add: Let_def)
    then show ?thesis by blast
  qed
qed

lemma indexOf_present:
  "pat \<noteq> [] \<Longrightarrow> s = pre @ pat @ post \<Longrightarrow> indexOf s pat \<noteq> -1"
proof (induction pre arbitrary: s)
  case Nil
  then have "s \<noteq> []" by simp
  then obtain a rest where s: "s = a # rest" by (cases s) simp_all
  from Nil have "take (length pat) s = pat" by simp
  with s have "indexOf s pat = 0" by simp
  then show ?case by simp
next
  case (Cons c pre)
  then obtain cs where s: "s = c # cs" "cs = pre @ pat @ post" by simp
  with Cons have n: "indexOf cs pat \<noteq> -1" by blast
  with indexOf_bounds [of cs pat] have "indexOf cs pat + 1 \<noteq> -1" by arith
  with n show ?case unfolding s(1) by (simp add: Let_def)
qed

lemma slice_nat:
  "a \<le> length s \<Longrightarrow> b \<le> length s \<Longrightarrow> slice s (int a) (int b) = take (b - a) (drop a s)"
proof -
  assume "a \<le> length s" "b \<le> length s"
  moreover have "nat (int b - int a) = b - a" by simp
  ultimately show ?thesis by (simp add: slice_def Let_def min_def)
qed

lemma extract_block:
  assumes "rawResponse = pre @ inner @ ''</response>'' @ post"
    and "firstAt rawResponse ''<response>'' (length pre)"
    and "firstAt rawResponse ''</response>'' (length (pre @ inner))"
  shows "extractXMLFromResponse rawResponse = Inr (inner @ ''</response>'')"
proof -
  have s: "indexOf rawResponse ''<response>'' = int (length pre)"
    using assms(2) by (intro indexOf_firstAt) simp_all
  have e: "indexOf rawResponse ''</response>'' = int (length (pre @ inner))"
    using assms(3) by (intro indexOf_firstAt) simp_all
  have "slice rawResponse (int (length pre)) (int (length (pre @ inner) + 11))
          = take (length (pre @ inner) + 11 - length pre) (drop (length pre) rawResponse)"
    by (rule slice_nat) (simp_all add: assms(1))
  also have "\<dots> = inner @ ''</response>''"
    by (simp add: assms(1))
  finally have "slice rawResponse (int (length pre)) (int (length (pre @ inner)) + 11)
          = inner @ ''</response>''"
    by simp
  with s e show ?thesis by (simp add: extractXMLFromResponse_def Let_def)
qed

lemma extract_no_opening:
  "\<not> (\<exists>pre post. rawResponse = pre @ ''<response>'' @ post)
     \<Longrightarrow> extractXMLFromResponse rawResponse
           = Inl (Error ''Could not find valid XML in model response'')"
  by (simp add: extractXMLFromResponse_def Let_def indexOf_absent)

lemma extract_no_closing:
  assumes "\<exists>pre post. rawResponse = pre @ ''<response>'' @ post"
    and "\<not> (\<exists>pre post. rawResponse = pre @ ''</response>'' @ post)"
  shows "\<exists>n. extractXMLFromResponse rawResponse = Inr (take n ''<response>'')"
proof -
  from assms(1) have present: "indexOf rawResponse ''<response>'' \<noteq> -1"
    using indexOf_present [of "''<response>''" rawResponse] by auto
  have ne: "''<response>'' \<noteq> []" by simp
  from indexOf_occurrence [OF ne present] obtain i where
    i1: "indexOf rawResponse ''<response>'' = int i"
    and i2: "take (length ''<response>'') (drop i rawResponse) = ''<response>''"
    by blast
  have ten: "length ''<response>'' = 10" by simp
  from i2 have occ: "take 10 (drop i rawResponse) = ''<response>''"
    unfolding ten .
  have e: "indexOf rawResponse ''</response>'' = -1"
    using assms(2) by (rule indexOf_absent)
  have "length (take 10 (drop i rawResponse)) = 10"
    unfolding occ by simp
  then have len: "i + 10 \<le> length rawResponse" by simp
  have "slice rawResponse (int i) (int 10) = take (10 - i) (drop i rawResponse)"
    using len by (intro slice_nat) simp_all
  also have "\<dots> = take (10 - i) (take 10 (drop i rawResponse))" by simp
  also have "\<dots> = take (10 - i) ''<response>''" by (simp only: occ)
  finally have "slice rawResponse (int i) 10 = take (10 - i) ''<response>''" by simp
  with i1 e show ?thesis by (auto simp: extractXMLFromResponse_def Let_def)
qed

lemma block_not_blank: "\<not> list_all space (inner @ ''</response>'')"
  by (simp add: space_def)

lemma firstAt_indexOf:
  "pat \<noteq> [] \<Longrightarrow> indexOf s pat = int i \<Longrightarrow> firstAt s pat i"
proof (induction s arbitrary: i)
  case Nil
  then show ?case by simp
next
  case (Cons c cs)
  show ?case
  proof (cases "take (length pat) (c # cs) = pat")
    case True
    with Cons.prems have "i = 0" by simp
    with True show ?thesis by (simp add: firstAt_def)
  next
    case False
    with Cons.prems(2) have r: "indexOf cs pat \<noteq> -1" "indexOf cs pat + 1 = int i"
      by (auto simp: Let_def split: if_splits)
    with indexOf_bounds [of cs pat] obtain k where k: "i = Suc k" "indexOf cs pat = int k"
      by (cases i) auto
    with Cons.prems(1) have f: "firstAt cs pat k" by (intro Cons.IH)
    show ?thesis
      unfolding firstAt_def list_all_iff k(1)
    proof (intro conjI ballI)
      show "take (length pat) (drop (Suc k) (c # cs)) = pat"
        using f by (simp add: firstAt_def)
    next
      fix j assume j: "j \<in> set [0..<Suc k]"
      show "take (length pat) (drop j (c # cs)) \<noteq> pat"
      proof (cases j)
        case 0
        with False show ?thesis by simp
      next
        case (Suc m)
        with j have "m < k" by auto
        with f have "take (length pat) (drop m cs) \<noteq> pat"
          by (simp add: firstAt_def list_all_iff)
        with Suc show ?thesis by simp
      qed
    qed
  qed
qed

text \<open>The run applies the parse to what the extraction returns.\<close>

lemma run_parses:
  "createAutomatedPR w =
     (let fetch = getRepoFiles [] (tree w);
          system = instructions @ codebaseContext (repoFiles fetch);
          h = requests fetch @ [GenerateText system (stdin w)]
      in case completion w system (stdin w) of
           None \<Rightarrow> \<lparr>calls = h, outcome = Inl ModelError\<rparr>
         | Some (rawResponse, reasoning) \<Rightarrow>
            (case parseResponse (sax w) (outside w) rawResponse of
               Inl e \<Rightarrow> \<lparr>calls = h, outcome = Inl e\<rparr>
             | Inr generated \<Rightarrow> publish w h reasoning generated))"
  by (simp add: createAutomatedPR_def parseResponse_def andThen_def Let_def
        split: option.splits sum.splits prod.splits)

subsection \<open>The parse\<close>

text \<open>
  C4, as the claim words it, fails: the document below has a \<open>labels\<close> element in the
  pull request, an attribute on the \<open>file\<close> element, a second \<open>path\<close> and a \<open>notes\<close>
  element after \<open>files\<close>; it does not match the schema, and it parses.
\<close>

theorem extra_structure_counterexample:
  "\<not> matchesSchema
       (Element ''response'' []
         [Child (Element ''pullRequest'' []
                [Child (Element ''title'' [] [Text ''T'']),
                 Child (Element ''body'' [] [Text ''B'']),
                 Child (Element ''labels'' [] [Text ''x''])]),
          Child (Element ''files'' []
                [Child (Element ''file'' [(''mode'', ''100644'')]
                       [Child (Element ''path'' [] [Text ''a'']),
                        Child (Element ''path'' [] [Text ''b'']),
                        Child (Element ''content'' [] [Text ''c''])])]),
          Child (Element ''notes'' [] [Text ''n''])])
   \<and> parseModelResponse
       (\<lambda>str. Some (Element ''response'' []
         [Child (Element ''pullRequest'' []
                [Child (Element ''title'' [] [Text ''T'']),
                 Child (Element ''body'' [] [Text ''B'']),
                 Child (Element ''labels'' [] [Text ''x''])]),
          Child (Element ''files'' []
                [Child (Element ''file'' [(''mode'', ''100644'')]
                       [Child (Element ''path'' [] [Text ''a'']),
                        Child (Element ''path'' [] [Text ''b'']),
                        Child (Element ''content'' [] [Text ''c''])])]),
          Child (Element ''notes'' [] [Text ''n''])]))
       (\<lambda>root. Inl TypeError)
       (''<response><pullRequest><title>T</title><body>B</body><labels>x</labels></pullRequest>'' @
        ''<files><file mode=\"100644\"><path>a</path><path>b</path><content>c</content></file></files>'' @
        ''<notes>n</notes></response>'')
     = Inr \<lparr>files = [\<lparr>path = JStr ''a'', content = JStr ''c''\<rparr>],
            pr = \<lparr>title = JStr ''T'', body = JStr ''B''\<rparr>\<rparr>"
  by (simp add: matchesSchema_def parseModelResponse_def parseStringPromise_def andThen_def
        space_def reserved_def attrObject_def assignOrPush_def)

text \<open>
  C4, amended: the parse fails with a \<open>TypeError\<close> on a blank string and with the reader's
  error on a string the reader rejects. On a string that the reader reads as a document
  in the range of the builder (\<open>covered\<close>: no element of a reserved name, no attribute
  \<open>__proto__\<close>, no repeated attribute), the parse succeeds exactly when the document has
  what the program reads (\<open>decoded\<close>): the root \<open>response\<close>, a \<open>files\<close> element with at
  least one \<open>file\<close>, a \<open>path\<close> and a \<open>content\<close> in each \<open>file\<close> of the first \<open>files\<close>, a
  \<open>pullRequest\<close> with a \<open>title\<close> and a \<open>body\<close>, and its result is then the values the
  builder left there. When one of them is missing the parse fails with a \<open>TypeError\<close>.
  Nothing else in the document is looked at.
\<close>

theorem parse_decodes:
  "(list_all space str \<longrightarrow> parseModelResponse rd other str = Inl TypeError)
   \<and> (\<not> list_all space str \<and> rd str = None
        \<longrightarrow> parseModelResponse rd other str = Inl XmlError)
   \<and> (\<not> list_all space str \<and> rd str = Some root \<and> covered root
        \<longrightarrow> parseModelResponse rd other str
              = (case decoded root of None \<Rightarrow> Inl TypeError | Some g \<Rightarrow> Inr g))"
  using parseModelResponse_blank parseModelResponse_rejected parseModelResponse_decoded
  by blast

theorem parse_decodes_witness:
  "\<not> list_all space ''<response><files><file><path>a</path></file></files></response>''
   \<and> covered (Element ''response'' []
        [Child (Element ''files'' []
               [Child (Element ''file'' [] [Child (Element ''path'' [] [Text ''a''])])])])
   \<and> parseModelResponse
     (\<lambda>str. Some (Element ''response'' []
        [Child (Element ''files'' []
               [Child (Element ''file'' [] [Child (Element ''path'' [] [Text ''a''])])])]))
     (\<lambda>root. Inr JNull)
     ''<response><files><file><path>a</path></file></files></response>''
   = Inl TypeError
   \<and> parseModelResponse (\<lambda>str. None) (\<lambda>root. Inr JNull) ''  '' = Inl TypeError
   \<and> parseModelResponse (\<lambda>str. None) (\<lambda>root. Inr JNull) ''<response>'' = Inl XmlError"
proof -
  let ?doc = "Element ''response'' []
        [Child (Element ''files'' []
               [Child (Element ''file'' [] [Child (Element ''path'' [] [Text ''a''])])])]"
  let ?str = "''<response><files><file><path>a</path></file></files></response>''"
  have b: "\<not> list_all space ?str" by (simp add: space_def)
  have c: "covered ?doc"
    by (simp add: covered_def reserved_def attrObject_def assignOrPush_def)
  have d: "decoded ?doc = None"
    by (simp add: decoded_def named_def editOf_def)
  have b2: "list_all space ''  ''" "\<not> list_all space ''<response>''"
    by (simp_all add: space_def)
  from parse_decodes [of ?str "\<lambda>str. Some ?doc" "\<lambda>root. Inr JNull" ?doc] b c d
  have 1: "parseModelResponse (\<lambda>str. Some ?doc) (\<lambda>root. Inr JNull) ?str = Inl TypeError"
    by simp
  from parse_decodes [of "''  ''" "\<lambda>str. None" "\<lambda>root. Inr JNull"] b2
  have 2: "parseModelResponse (\<lambda>str. None) (\<lambda>root. Inr JNull) ''  '' = Inl TypeError"
    by simp
  from parse_decodes [of "''<response>''" "\<lambda>str. None" "\<lambda>root. Inr JNull"] b2
  have 3: "parseModelResponse (\<lambda>str. None) (\<lambda>root. Inr JNull) ''<response>'' = Inl XmlError"
    by simp
  from b c 1 2 3 show ?thesis by blast
qed

text \<open>
  C3, as the claim words it, fails twice. For \<open>K = 0\<close>: the first reply below matches the
  schema with no \<open>file\<close> element; the extraction returns it whole, \<open>xml2js\<close> builds the
  empty string for the empty \<open>files\<close> element, \<open>''.file\<close> is \<open>undefined\<close>, and the parse
  throws a \<open>TypeError\<close> where the claim has it yield no edits. For a reply that contains
  a valid block with one \<open>file\<close> element after an earlier \<open></response>\<close>: the extraction
  cuts from the first \<open><response>\<close> to the first \<open></response>\<close>, which is the empty
  string here, and the parse throws a \<open>TypeError\<close>.
\<close>

theorem round_trip_counterexample:
  "matchesSchema
       (Element ''response'' []
         [Child (Element ''pullRequest'' []
                [Child (Element ''title'' [] [Text ''T'']), Child (Element ''body'' [] [Text ''B''])]),
          Child (Element ''files'' [] [])])
   \<and> extractXMLFromResponse
       ''<response><pullRequest><title>T</title><body>B</body></pullRequest><files></files></response>''
     = Inr ''<response><pullRequest><title>T</title><body>B</body></pullRequest><files></files></response>''
   \<and> parseResponse
       (\<lambda>str. Some (Element ''response'' []
         [Child (Element ''pullRequest'' []
                [Child (Element ''title'' [] [Text ''T'']), Child (Element ''body'' [] [Text ''B''])]),
          Child (Element ''files'' [] [])]))
       (\<lambda>root. Inr JNull)
       ''<response><pullRequest><title>T</title><body>B</body></pullRequest><files></files></response>''
     = Inl TypeError
   \<and> matchesSchema addLoggingDoc
   \<and> length (fileElements addLoggingDoc) = 1
   \<and> parseResponse (\<lambda>str. if str = addLoggingXml then Some addLoggingDoc else None)
       (\<lambda>root. Inr JNull) (''See </response>. '' @ addLoggingXml)
     = Inl TypeError"
  by (simp add: matchesSchema_def isPullRequest_def isFiles_def isFile_def leaf_def
        fileElements_def addLoggingDoc_def addLoggingXml_def
        extractXMLFromResponse_def slice_def parseResponse_def
        parseModelResponse_def parseStringPromise_def andThen_def space_def
        reserved_def attrObject_def assignOrPush_def)

text \<open>
  C3, amended, for the extraction followed by the parse (\<open>parseResponse\<close>). When the
  reply is \<open>pre\<close>, \<open>inner\<close>, the closing tag and \<open>post\<close>, with \<open>inner\<close> starting at the first
  \<open><response>\<close> of the reply and the closing tag being its first \<open></response>\<close>:
  \<^item> if the reader reads the block as a document matching the schema, the result is
    one edit for each \<open>file\<close> element, in document order, with the texts of its \<open>path\<close>
    and \<open>content\<close>, and the texts of \<open>title\<close> and \<open>body\<close>, when there is at least one
    \<open>file\<close> element, and a \<open>TypeError\<close> when there is none;
  \<^item> if the reader rejects the block, the result is the reader's error.

  A reply with no \<open><response>\<close> in it fails at the extraction. A reply with
  \<open><response>\<close> and no \<open></response>\<close> in it fails at the parse, with a \<open>TypeError\<close> or
  the reader's error, for a reader that rejects every text without a \<open>/\<close> (a well-formed
  document closes its root element): what the extraction returns there is a prefix of
  \<open><response>\<close>.
\<close>

theorem response_round_trip:
  "(rawResponse = pre @ inner @ ''</response>'' @ post
      \<and> firstAt rawResponse ''<response>'' (length pre)
      \<and> firstAt rawResponse ''</response>'' (length (pre @ inner))
      \<and> rd (inner @ ''</response>'') = Some root \<and> matchesSchema root
    \<longrightarrow> parseResponse rd other rawResponse
          = (if fileElements root = [] then Inl TypeError
             else Inr \<lparr>files = map schemaEdit (fileElements root), pr = schemaMetadata root\<rparr>))
   \<and> (rawResponse = pre @ inner @ ''</response>'' @ post
      \<and> firstAt rawResponse ''<response>'' (length pre)
      \<and> firstAt rawResponse ''</response>'' (length (pre @ inner))
      \<and> rd (inner @ ''</response>'') = None
    \<longrightarrow> parseResponse rd other rawResponse = Inl XmlError)
   \<and> (\<not> (\<exists>a b. rawResponse = a @ ''<response>'' @ b)
    \<longrightarrow> parseResponse rd other rawResponse
          = Inl (Error ''Could not find valid XML in model response''))
   \<and> ((\<exists>a b. rawResponse = a @ ''<response>'' @ b)
      \<and> \<not> (\<exists>a b. rawResponse = a @ ''</response>'' @ b)
      \<and> (\<forall>s. CHR ''/'' \<notin> set s \<longrightarrow> rd s = None)
    \<longrightarrow> parseResponse rd other rawResponse = Inl TypeError
        \<or> parseResponse rd other rawResponse = Inl XmlError)"
proof (intro conjI impI)
  assume h: "rawResponse = pre @ inner @ ''</response>'' @ post
      \<and> firstAt rawResponse ''<response>'' (length pre)
      \<and> firstAt rawResponse ''</response>'' (length (pre @ inner))
      \<and> rd (inner @ ''</response>'') = Some root \<and> matchesSchema root"
  then have a: "rawResponse = pre @ inner @ ''</response>'' @ post"
      "firstAt rawResponse ''<response>'' (length pre)"
      "firstAt rawResponse ''</response>'' (length (pre @ inner))"
    by blast+
  have e: "extractXMLFromResponse rawResponse = Inr (inner @ ''</response>'')"
    using a by (rule extract_block)
  from h have c: "covered root" by (intro covered_schema) simp
  from h c have "parseModelResponse rd other (inner @ ''</response>'')
      = (case decoded root of None \<Rightarrow> Inl TypeError | Some g \<Rightarrow> Inr g)"
    by (intro parseModelResponse_decoded block_not_blank) simp_all
  with e h show "parseResponse rd other rawResponse
          = (if fileElements root = [] then Inl TypeError
             else Inr \<lparr>files = map schemaEdit (fileElements root), pr = schemaMetadata root\<rparr>)"
    by (simp add: parseResponse_def andThen_def decoded_schema)
next
  assume h: "rawResponse = pre @ inner @ ''</response>'' @ post
      \<and> firstAt rawResponse ''<response>'' (length pre)
      \<and> firstAt rawResponse ''</response>'' (length (pre @ inner))
      \<and> rd (inner @ ''</response>'') = None"
  then have a: "rawResponse = pre @ inner @ ''</response>'' @ post"
      "firstAt rawResponse ''<response>'' (length pre)"
      "firstAt rawResponse ''</response>'' (length (pre @ inner))"
    by blast+
  have e: "extractXMLFromResponse rawResponse = Inr (inner @ ''</response>'')"
    using a by (rule extract_block)
  from h have "parseModelResponse rd other (inner @ ''</response>'') = Inl XmlError"
    by (intro parseModelResponse_rejected block_not_blank) simp
  with e show "parseResponse rd other rawResponse = Inl XmlError"
    by (simp add: parseResponse_def andThen_def)
next
  assume "\<not> (\<exists>a b. rawResponse = a @ ''<response>'' @ b)"
  then show "parseResponse rd other rawResponse
          = Inl (Error ''Could not find valid XML in model response'')"
    by (simp add: parseResponse_def andThen_def extract_no_opening)
next
  assume h: "(\<exists>a b. rawResponse = a @ ''<response>'' @ b)
      \<and> \<not> (\<exists>a b. rawResponse = a @ ''</response>'' @ b)
      \<and> (\<forall>s. CHR ''/'' \<notin> set s \<longrightarrow> rd s = None)"
  then obtain n where e: "extractXMLFromResponse rawResponse = Inr (take n ''<response>'')"
    using extract_no_closing [of rawResponse] by blast
  have "CHR ''/'' \<notin> set (take n ''<response>'')"
  proof
    assume "CHR ''/'' \<in> set (take n ''<response>'')"
    then have "CHR ''/'' \<in> set ''<response>''" by (rule in_set_takeD)
    then show False by simp
  qed
  with h have r: "rd (take n ''<response>'') = None" by blast
  show "parseResponse rd other rawResponse = Inl TypeError
        \<or> parseResponse rd other rawResponse = Inl XmlError"
  proof (cases "list_all space (take n ''<response>'')")
    case True
    then show ?thesis using e
      by (simp add: parseResponse_def andThen_def parseModelResponse_blank)
  next
    case False
    then show ?thesis using e r
      by (simp add: parseResponse_def andThen_def parseModelResponse_rejected)
  qed
qed

theorem response_round_trip_witness:
  "firstAt (''Here is the change. '' @ addLoggingXml @ '' Done.'') ''<response>'' 20
   \<and> firstAt (''Here is the change. '' @ addLoggingXml @ '' Done.'') ''</response>'' 211
   \<and> matchesSchema addLoggingDoc
   \<and> parseResponse (\<lambda>str. if str = addLoggingXml then Some addLoggingDoc else None)
         (\<lambda>root. Inr JNull) (''Here is the change. '' @ addLoggingXml @ '' Done.'')
       = Inr \<lparr>files = [\<lparr>path = JStr ''src/log.ts'',
                          content = JStr ''export const log = console.log;''\<rparr>],
              pr = \<lparr>title = JStr ''Add Logging'', body = JStr ''Adds a logger.''\<rparr>\<rparr>
   \<and> parseResponse (\<lambda>str. None) (\<lambda>root. Inr JNull)
         (''Here is the change. '' @ addLoggingXml @ '' Done.'') = Inl XmlError
   \<and> \<not> (\<exists>a b. ''No changes.'' = a @ ''<response>'' @ b)
   \<and> parseResponse (\<lambda>str. None) (\<lambda>root. Inr JNull) ''No changes.''
       = Inl (Error ''Could not find valid XML in model response'')
   \<and> (\<exists>a b. ''<response>abc'' = a @ ''<response>'' @ b)
   \<and> \<not> (\<exists>a b. ''<response>abc'' = a @ ''</response>'' @ b)
   \<and> parseResponse (\<lambda>str. None) (\<lambda>root. Inr JNull) ''<response>abc'' = Inl XmlError"
proof -
  let ?rd = "\<lambda>str. if str = addLoggingXml then Some addLoggingDoc else None"
  let ?no = "\<lambda>str::string. None :: xml option"
  let ?other = "\<lambda>root::xml. Inr JNull :: error + jsval"
  let ?pre = "''Here is the change. ''"
  let ?inner = "''<response><pullRequest><title>Add Logging</title><body>Adds a logger.</body></pullRequest>'' @
     ''<files><file><path>src/log.ts</path><content>export const log = console.log;</content></file></files>''"
  let ?raw = "?pre @ addLoggingXml @ '' Done.''"
  have x: "addLoggingXml = ?inner @ ''</response>''" by (simp add: addLoggingXml_def)
  have raw: "?raw = ?pre @ ?inner @ ''</response>'' @ '' Done.''" by (simp add: x)
  have i1: "indexOf ?raw ''<response>'' = int 20"
    by (simp add: addLoggingXml_def)
  have i2: "indexOf ?raw ''</response>'' = int 211"
    by (simp add: addLoggingXml_def)
  have ne: "''<response>'' \<noteq> []" "''</response>'' \<noteq> []" by simp_all
  have f1: "firstAt ?raw ''<response>'' 20" using ne(1) i1 by (rule firstAt_indexOf)
  have f2: "firstAt ?raw ''</response>'' 211" using ne(2) i2 by (rule firstAt_indexOf)
  have l: "length ?pre = 20" "length (?pre @ ?inner) = 211" by simp_all
  have m: "matchesSchema addLoggingDoc"
    by (simp add: addLoggingDoc_def matchesSchema_def isPullRequest_def isFiles_def isFile_def
          leaf_def)
  have v: "fileElements addLoggingDoc \<noteq> []"
      "map schemaEdit (fileElements addLoggingDoc)
             = [\<lparr>path = JStr ''src/log.ts'', content = JStr ''export const log = console.log;''\<rparr>]"
      "schemaMetadata addLoggingDoc
             = \<lparr>title = JStr ''Add Logging'', body = JStr ''Adds a logger.''\<rparr>"
    by (simp_all add: addLoggingDoc_def fileElements_def schemaEdit_def schemaMetadata_def
          textOf_def)
  have r1: "?rd (?inner @ ''</response>'') = Some addLoggingDoc" by (simp add: x)
  have r2: "?no (?inner @ ''</response>'') = None" by simp
  have n: "\<not> (\<exists>a b. ''No changes.'' = a @ ''<response>'' @ b)"
  proof
    assume "\<exists>a b. ''No changes.'' = a @ ''<response>'' @ b"
    then obtain a b where "''No changes.'' = a @ ''<response>'' @ b" by blast
    then have "set ''No changes.'' = set (a @ ''<response>'' @ b)" by simp
    then have "CHR ''<'' \<in> set ''No changes.''" by simp
    then show False by simp
  qed
  have o: "\<exists>a b. ''<response>abc'' = a @ ''<response>'' @ b"
  proof (intro exI)
    show "''<response>abc'' = [] @ ''<response>'' @ ''abc''" by simp
  qed
  have c: "\<not> (\<exists>a b. ''<response>abc'' = a @ ''</response>'' @ b)"
  proof
    assume "\<exists>a b. ''<response>abc'' = a @ ''</response>'' @ b"
    then obtain a b where "''<response>abc'' = a @ ''</response>'' @ b" by blast
    then have "set ''<response>abc'' = set (a @ ''</response>'' @ b)" by simp
    then have "CHR ''/'' \<in> set ''<response>abc''" by simp
    then show False by simp
  qed
  have s: "\<forall>s. CHR ''/'' \<notin> set s \<longrightarrow> ?no s = None" by simp
  have f1': "firstAt ?raw ''<response>'' (length ?pre)" unfolding l(1) by (rule f1)
  have f2': "firstAt ?raw ''</response>'' (length (?pre @ ?inner))" unfolding l(2) by (rule f2)
  note rt = response_round_trip [of ?raw ?pre ?inner "'' Done.''" ?rd addLoggingDoc ?other]
  have h1: "?raw = ?pre @ ?inner @ ''</response>'' @ '' Done.''
      \<and> firstAt ?raw ''<response>'' (length ?pre)
      \<and> firstAt ?raw ''</response>'' (length (?pre @ ?inner))
      \<and> ?rd (?inner @ ''</response>'') = Some addLoggingDoc \<and> matchesSchema addLoggingDoc"
    using raw f1' f2' r1 m by (intro conjI)
  have "parseResponse ?rd ?other ?raw
          = (if fileElements addLoggingDoc = [] then Inl TypeError
             else Inr \<lparr>files = map schemaEdit (fileElements addLoggingDoc),
                       pr = schemaMetadata addLoggingDoc\<rparr>)"
    using rt [THEN conjunct1] h1 by (rule mp)
  then have 1: "parseResponse ?rd ?other ?raw
       = Inr \<lparr>files = [\<lparr>path = JStr ''src/log.ts'',
                          content = JStr ''export const log = console.log;''\<rparr>],
              pr = \<lparr>title = JStr ''Add Logging'', body = JStr ''Adds a logger.''\<rparr>\<rparr>"
    by (simp only: v if_False)
  note rt2 = response_round_trip [of ?raw ?pre ?inner "'' Done.''" ?no addLoggingDoc ?other]
  have h2: "?raw = ?pre @ ?inner @ ''</response>'' @ '' Done.''
      \<and> firstAt ?raw ''<response>'' (length ?pre)
      \<and> firstAt ?raw ''</response>'' (length (?pre @ ?inner))
      \<and> ?no (?inner @ ''</response>'') = None"
    using raw f1' f2' r2 by (intro conjI)
  have 2: "parseResponse ?no ?other ?raw = Inl XmlError"
    using rt2 [THEN conjunct2, THEN conjunct1] h2 by (rule mp)
  from response_round_trip [of "''No changes.''" ?pre ?inner "'' Done.''" ?no addLoggingDoc ?other] n
  have 3: "parseResponse ?no ?other ''No changes.''
       = Inl (Error ''Could not find valid XML in model response'')"
    by blast
  from response_round_trip [of "''<response>abc''" ?pre ?inner "'' Done.''" ?no addLoggingDoc ?other]
    o c s
  have "parseResponse ?no ?other ''<response>abc'' = Inl TypeError
        \<or> parseResponse ?no ?other ''<response>abc'' = Inl XmlError"
    by blast
  moreover have "parseResponse ?no ?other ''<response>abc'' \<noteq> Inl TypeError"
    by (simp add: parseResponse_def extractXMLFromResponse_def slice_def andThen_def
          parseModelResponse_def parseStringPromise_def space_def)
  ultimately have 4: "parseResponse ?no ?other ''<response>abc'' = Inl XmlError" by blast
  from f1 f2 m 1 2 n 3 o c 4 show ?thesis by blast
qed

subsection \<open>Publishing\<close>

lemma writeFiles_accepted:
  "\<forall>h c. accepts w h c \<Longrightarrow>
     writeFiles w branch h (map edit es) = (None, h @ map (fileWrite branch) es)"
proof (induction es arbitrary: h)
  case Nil
  show ?case by simp
next
  case (Cons pc es)
  from Cons.prems have "accepts w h (fileWrite branch pc)" by blast
  then have "writeFiles w branch h (map edit (pc # es))
               = writeFiles w branch (h @ [fileWrite branch pc]) (map edit es)"
    by (simp add: edit_def fileWrite_def interpolate_def bufferFrom_def)
  with Cons.IH [OF Cons.prems] show ?case by simp
qed

lemma bullets:
  "traverse (\<lambda>f. andThen (interpolate w (path f)) (\<lambda>p. Inr (''- '' @ p))) (map edit es)
     = Inr (map (\<lambda>pc. ''- '' @ fst pc) es)"
  by (induction es) (simp_all add: andThen_def interpolate_def edit_def)

lemma publish_accepted:
  assumes "title (pr g) = JStr t" "files g = map edit es" "\<forall>h c. accepts w h c"
  shows "publish w h reasoning g =
     \<lparr>calls = h @ [ReposGet, GetRef (''heads/'' @ default_branch w),
            CreateRef (''refs/heads/'' @ newBranch t (clock w))
              (head_sha w (''heads/'' @ default_branch w))]
         @ map (fileWrite (newBranch t (clock w))) es
         @ [PullsCreate t (body (pr g)) (newBranch t (clock w)) (default_branch w),
            CreateComment (fst (pull w))
              (''## AI Model's Reasoning Process\<newline>\<newline>'' @ reasoning @
               ''\<newline>\<newline>## Modified Files\<newline>'' @
               join ''\<newline>'' (map (\<lambda>pc. ''- '' @ fst pc) es))],
      outcome = Inr (snd (pull w))\<rparr>"
proof -
  have acc: "accepts w h' c" for h' c using assms(3) by blast
  show ?thesis
    unfolding publish_def Let_def
    by (simp add: assms(1,2) acc writeFiles_accepted [OF assms(3)] bullets [simplified])
qed

lemma writesTo_append: "writesTo p (xs @ ys) = writesTo p xs @ writesTo p ys"
proof (induction xs)
  case Nil
  show ?case by simp
next
  case (Cons c xs)
  then show ?case by (cases c) simp_all
qed

lemma writesTo_edits:
  "writesTo p (map (fileWrite branch) es) = map snd (filter (\<lambda>pc. fst pc = p) es)"
  by (induction es) (simp_all add: fileWrite_def)

lemma slugify_add_logging: "slugify ''Add Logging'' = ''add-logging''"
  by (simp add: slugify_def toLowerCase_def lower_char_def alnum_def char_of_def bit_0)

lemma addLoggingDoc_schema: "matchesSchema addLoggingDoc"
  by (simp add: addLoggingDoc_def matchesSchema_def isPullRequest_def isFiles_def isFile_def
        leaf_def)

lemma addLoggingDoc_decoded:
  "decoded addLoggingDoc
     = Some \<lparr>files = map edit [(''src/log.ts'', ''export const log = console.log;'')],
             pr = \<lparr>title = JStr ''Add Logging'', body = JStr ''Adds a logger.''\<rparr>\<rparr>"
  unfolding decoded_schema [OF addLoggingDoc_schema]
  by (simp add: addLoggingDoc_def fileElements_def schemaEdit_def schemaMetadata_def
        textOf_def edit_def)

text \<open>
  C7: when the host accepts every request, the publisher, for every edit list, sends
  after the three requests that create the branch one file write per edit, in the
  order of the edit list, each to the new branch, then opens the pull request and
  comments on it, and succeeds: no edit is merged with another and no list is rejected.
  So the contents written to a path \<open>p\<close> are the contents of the edits that name \<open>p\<close>,
  in the order of the list: of two edits with the same path the earlier is written
  first and the later last.
\<close>

theorem same_path_sequential_writes:
  assumes "title (pr g) = JStr t" and "files g = map edit es"
    and "\<forall>h c. accepts w h c"
  shows "calls (publish w h reasoning g)
           = h @ [ReposGet, GetRef (''heads/'' @ default_branch w),
                  CreateRef (''refs/heads/'' @ newBranch t (clock w))
                    (head_sha w (''heads/'' @ default_branch w))]
               @ map (fileWrite (newBranch t (clock w))) es
               @ [PullsCreate t (body (pr g)) (newBranch t (clock w)) (default_branch w),
                  CreateComment (fst (pull w))
                    (''## AI Model's Reasoning Process\<newline>\<newline>'' @ reasoning @
                     ''\<newline>\<newline>## Modified Files\<newline>'' @
                     join ''\<newline>'' (map (\<lambda>pc. ''- '' @ fst pc) es))]
         \<and> outcome (publish w h reasoning g) = Inr (snd (pull w))
         \<and> writesTo p (drop (length h) (calls (publish w h reasoning g)))
             = map snd (filter (\<lambda>pc. fst pc = p) es)"
  unfolding publish_accepted [OF assms]
  by (simp add: writesTo_append writesTo_edits)

theorem same_path_sequential_writes_witness:
  "calls (publish world0 [] ''why''
       \<lparr>files = map edit [(''a.ts'', ''one''), (''b.ts'', ''other''), (''a.ts'', ''two'')],
        pr = \<lparr>title = JStr ''Fix'', body = JStr ''Twice''\<rparr>\<rparr>)
     = [ReposGet, GetRef ''heads/main'',
        CreateRef ''refs/heads/feature/fix-1730000000000'' ''c0ffee'',
        CreateOrUpdateFileContents (JStr ''a.ts'') ''Update a.ts'' ''one''
          ''feature/fix-1730000000000'',
        CreateOrUpdateFileContents (JStr ''b.ts'') ''Update b.ts'' ''other''
          ''feature/fix-1730000000000'',
        CreateOrUpdateFileContents (JStr ''a.ts'') ''Update a.ts'' ''two''
          ''feature/fix-1730000000000'',
        PullsCreate ''Fix'' (JStr ''Twice'') ''feature/fix-1730000000000'' ''main'',
        CreateComment 7
          (''## AI Model's Reasoning Process\<newline>\<newline>why\<newline>\<newline>## Modified Files\<newline>'' @
           ''- a.ts\<newline>- b.ts\<newline>- a.ts'')]
   \<and> outcome (publish world0 [] ''why''
       \<lparr>files = map edit [(''a.ts'', ''one''), (''b.ts'', ''other''), (''a.ts'', ''two'')],
        pr = \<lparr>title = JStr ''Fix'', body = JStr ''Twice''\<rparr>\<rparr>)
     = Inr ''https://example.org/pull/7''
   \<and> writesTo ''a.ts'' (calls (publish world0 [] ''why''
       \<lparr>files = map edit [(''a.ts'', ''one''), (''b.ts'', ''other''), (''a.ts'', ''two'')],
        pr = \<lparr>title = JStr ''Fix'', body = JStr ''Twice''\<rparr>\<rparr>))
     = [''one'', ''two'']"
proof -
  let ?g = "\<lparr>files = map edit [(''a.ts'', ''one''), (''b.ts'', ''other''), (''a.ts'', ''two'')],
        pr = \<lparr>title = JStr ''Fix'', body = JStr ''Twice''\<rparr>\<rparr>"
  have a: "\<forall>h c. accepts world0 h c" by (simp add: world0_def)
  have b: "newBranch ''Fix'' (clock world0) = ''feature/fix-1730000000000''"
    by (simp add: newBranch_def slugify_def toLowerCase_def lower_char_def alnum_def
          char_of_def bit_0 world0_def numberToString.simps)
  have v: "head_sha world0 ref = ''c0ffee''" "default_branch world0 = ''main''"
      "pull world0 = (7, ''https://example.org/pull/7'')" for ref
    by (simp_all add: world0_def)
  from same_path_sequential_writes [of ?g "''Fix''"
      "[(''a.ts'', ''one''), (''b.ts'', ''other''), (''a.ts'', ''two'')]" world0 "[]" "''why''"
      "''a.ts''"] a
  show ?thesis
    unfolding b by (simp add: v fileWrite_def)
qed

text \<open>
  C8: when the model's reply is the scenario's text, the reader reads it as the document
  it spells and the host accepts every request, the run creates the branch
  \<open>feature/add-logging-\<close> followed by the digits of the clock, sends exactly one file
  write, to \<open>src/log.ts\<close>, opens exactly one pull request, titled \<open>Add Logging\<close>, and
  comments on it.
\<close>

theorem add_logging_scenario:
  assumes "completion w (instructions @ codebaseContext (repoFiles (getRepoFiles [] (tree w))))
             (stdin w) = Some (addLoggingXml, reasoning)"
    and "sax w addLoggingXml = Some addLoggingDoc"
    and "\<forall>h c. accepts w h c"
  shows "filter isWrite (calls (createAutomatedPR w))
           = [CreateRef (''refs/heads/feature/add-logging-'' @ numberToString (clock w))
                (head_sha w (''heads/'' @ default_branch w)),
              CreateOrUpdateFileContents (JStr ''src/log.ts'') ''Update src/log.ts''
                ''export const log = console.log;''
                (''feature/add-logging-'' @ numberToString (clock w)),
              PullsCreate ''Add Logging'' (JStr ''Adds a logger.'')
                (''feature/add-logging-'' @ numberToString (clock w)) (default_branch w),
              CreateComment (fst (pull w))
                (''## AI Model's Reasoning Process\<newline>\<newline>'' @ reasoning @
                 ''\<newline>\<newline>## Modified Files\<newline>- src/log.ts'')]
         \<and> numberToString (clock w) \<noteq> []
         \<and> set (numberToString (clock w)) \<subseteq> set ''0123456789''
         \<and> outcome (createAutomatedPR w) = Inr (snd (pull w))"
proof -
  let ?es = "[(''src/log.ts'', ''export const log = console.log;'')]"
  let ?g = "\<lparr>files = map edit ?es,
            pr = \<lparr>title = JStr ''Add Logging'', body = JStr ''Adds a logger.''\<rparr>\<rparr>"
  let ?h = "requests (getRepoFiles [] (tree w)) @
      [GenerateText (instructions @ codebaseContext (repoFiles (getRepoFiles [] (tree w)))) (stdin w)]"
  have e: "extractXMLFromResponse addLoggingXml = Inr addLoggingXml"
    by (simp add: addLoggingXml_def extractXMLFromResponse_def slice_def)
  have b: "\<not> list_all space addLoggingXml"
    by (simp add: addLoggingXml_def space_def)
  have p: "parseModelResponse (sax w) (outside w) addLoggingXml = Inr ?g"
    using parseModelResponse_decoded [of addLoggingXml "sax w" addLoggingDoc "outside w"]
      b assms(2) covered_schema [OF addLoggingDoc_schema]
    by (simp add: addLoggingDoc_decoded)
  have run: "createAutomatedPR w = publish w ?h reasoning ?g"
    using assms(1) e p by (simp add: createAutomatedPR_def Let_def)
  have br: "newBranch ''Add Logging'' (clock w) = ''feature/add-logging-'' @ numberToString (clock w)"
    by (simp add: newBranch_def slugify_add_logging)
  have pub: "publish w ?h reasoning ?g =
      \<lparr>calls = ?h @
         [ReposGet, GetRef (''heads/'' @ default_branch w),
          CreateRef (''refs/heads/feature/add-logging-'' @ numberToString (clock w))
            (head_sha w (''heads/'' @ default_branch w)),
          CreateOrUpdateFileContents (JStr ''src/log.ts'') ''Update src/log.ts''
            ''export const log = console.log;''
            (''feature/add-logging-'' @ numberToString (clock w)),
          PullsCreate ''Add Logging'' (JStr ''Adds a logger.'')
            (''feature/add-logging-'' @ numberToString (clock w)) (default_branch w),
          CreateComment (fst (pull w))
            (''## AI Model's Reasoning Process\<newline>\<newline>'' @ reasoning @
             ''\<newline>\<newline>## Modified Files\<newline>- src/log.ts'')],
       outcome = Inr (snd (pull w))\<rparr>"
    using publish_accepted [of ?g "''Add Logging''" ?es w ?h reasoning] assms(3)
    unfolding br by (simp add: fileWrite_def)
  have digits: "set (numberToString (clock w)) \<subseteq> set ''0123456789''"
    using numberToString_digits by blast
  show ?thesis
    unfolding run pub using digits numberToString_nonempty [of "clock w"]
    by (simp add: fetch_no_writes)
qed

theorem add_logging_scenario_witness:
  "completion world1 (instructions @ codebaseContext (repoFiles (getRepoFiles [] (tree world1))))
      (stdin world1) = Some (addLoggingXml, ''Add a logger module.'')
   \<and> sax world1 addLoggingXml = Some addLoggingDoc
   \<and> filter isWrite (calls (createAutomatedPR world1))
       = [CreateRef ''refs/heads/feature/add-logging-1730000000000'' ''c0ffee'',
          CreateOrUpdateFileContents (JStr ''src/log.ts'') ''Update src/log.ts''
            ''export const log = console.log;'' ''feature/add-logging-1730000000000'',
          PullsCreate ''Add Logging'' (JStr ''Adds a logger.'')
            ''feature/add-logging-1730000000000'' ''main'',
          CreateComment 7
            (''## AI Model's Reasoning Process\<newline>\<newline>Add a logger module.'' @
             ''\<newline>\<newline>## Modified Files\<newline>- src/log.ts'')]
   \<and> outcome (createAutomatedPR world1) = Inr ''https://example.org/pull/7''"
proof -
  have c: "completion world1 (instructions @ codebaseContext (repoFiles (getRepoFiles [] (tree world1))))
      (stdin world1) = Some (addLoggingXml, ''Add a logger module.'')"
    by (simp add: world1_def)
  have s: "sax world1 addLoggingXml = Some addLoggingDoc"
    by (simp add: world1_def)
  have a: "\<forall>h c. accepts world1 h c"
    by (simp add: world1_def world0_def)
  have n: "numberToString (clock world1) = ''1730000000000''"
    by (simp add: world1_def world0_def numberToString.simps)
  have v: "head_sha world1 ref = ''c0ffee''"
      "default_branch world1 = ''main''" "pull world1 = (7, ''https://example.org/pull/7'')"
    for ref
    by (simp_all add: world1_def world0_def)
  from add_logging_scenario [OF c s a] c s show ?thesis
    unfolding n by (simp add: v)
qed

text \<open>
  C1 (the closing-tag check): the claim has the extraction throw whenever the closing tag
  \<open></response>\<close> is absent. On the text \<open><response>abc\<close>, which has the opening tag and
  no closing tag, the function does not throw: \<open>xmlEnd\<close> is \<open>-1 + 11 = 10\<close>, the test
  \<open>xmlEnd === -1\<close> is false, and the result is the first ten characters of the text.
\<close>

theorem extract_without_closing_tag:
  "extractXMLFromResponse ''<response>abc'' = Inr ''<response>''"
  by (simp add: extractXMLFromResponse_def slice_def)

end
